theory Spec2Isabelle
  imports Main "HOL-Library.Sublist"
begin

section \<open>Python values\<close>

text \<open>
  The pipeline passes message records around as Python dictionaries
  (\<^verbatim>\<open>Dict[str, Any]\<close>).  A dictionary is an association list with unique string
  keys in insertion order; the values are the dynamically typed Python values the
  code inspects with \<^verbatim>\<open>isinstance\<close>, truthiness tests and \<^verbatim>\<open>==\<close>.
  Strings are lists of 8-bit characters, read as the code points below 256.
  Floating-point numbers are not modelled.
\<close>

datatype pydt = DT (dt_local: int) (dt_offset: "int option")
  \<comment> \<open>a \<^verbatim>\<open>datetime\<close>: local microseconds, and the UTC offset when timezone-aware\<close>

datatype pyval =
    PNone
  | PBool bool
  | PInt int
  | PStr string
  | PDatetime pydt
  | PList "pyval list"
  | PDict "(string \<times> pyval) list"

type_synonym pydict = "(string \<times> pyval) list"

datatype error =
    KeyError string
  | TypeError
  | ValueError
  | AttributeError
  | ReError
  | OtherError

text \<open>\<^verbatim>\<open>d.get(k)\<close>, \<^verbatim>\<open>d.get(k, default)\<close>, \<^verbatim>\<open>k in d\<close>, \<^verbatim>\<open>d[k] = v\<close>, \<^verbatim>\<open>del d[k]\<close>.\<close>

definition dict_get :: "pydict \<Rightarrow> string \<Rightarrow> pyval \<Rightarrow> pyval" where
  "dict_get d k dflt = (case map_of d k of None \<Rightarrow> dflt | Some v \<Rightarrow> v)"

definition dict_has :: "pydict \<Rightarrow> string \<Rightarrow> bool" where
  "dict_has d k = (map_of d k \<noteq> None)"

fun dict_set :: "pydict \<Rightarrow> string \<Rightarrow> pyval \<Rightarrow> pydict" where
  "dict_set [] k v = [(k, v)]"
| "dict_set ((k', v') # d) k v = (if k' = k then (k, v) # d else (k', v') # dict_set d k v)"

definition dict_del :: "pydict \<Rightarrow> string \<Rightarrow> pydict" where
  "dict_del d k = filter (\<lambda>kv. fst kv \<noteq> k) d"

text \<open>Truthiness (\<^verbatim>\<open>bool(v)\<close>, \<^verbatim>\<open>if v:\<close>, \<^verbatim>\<open>not v\<close>).\<close>

fun truthy :: "pyval \<Rightarrow> bool" where
  "truthy PNone = False"
| "truthy (PBool b) = b"
| "truthy (PInt n) = (n \<noteq> 0)"
| "truthy (PStr s) = (s \<noteq> [])"
| "truthy (PDatetime _) = True"
| "truthy (PList xs) = (xs \<noteq> [])"
| "truthy (PDict d) = (d \<noteq> [])"

text \<open>
  Python's \<^verbatim>\<open>==\<close>: a boolean is the integer 0 or 1; datetimes of mixed
  awareness are unequal; containers compare element-wise.
\<close>

fun py_eq :: "pyval \<Rightarrow> pyval \<Rightarrow> bool"
  and py_eq_list :: "pyval list \<Rightarrow> pyval list \<Rightarrow> bool"
  and py_eq_dict :: "pydict \<Rightarrow> pydict \<Rightarrow> bool" where
  "py_eq PNone w = (w = PNone)"
| "py_eq (PBool b) w =
     (case w of PBool c \<Rightarrow> b = c | PInt n \<Rightarrow> n = (if b then 1 else 0) | _ \<Rightarrow> False)"
| "py_eq (PInt n) w =
     (case w of PBool c \<Rightarrow> n = (if c then 1 else 0) | PInt m \<Rightarrow> n = m | _ \<Rightarrow> False)"
| "py_eq (PStr s) w = (w = PStr s)"
| "py_eq (PDatetime a) w =
     (case w of
        PDatetime b \<Rightarrow>
          (case (dt_offset a, dt_offset b) of
             (None, None) \<Rightarrow> dt_local a = dt_local b
           | (Some oa, Some ob) \<Rightarrow> dt_local a - oa = dt_local b - ob
           | _ \<Rightarrow> False)
      | _ \<Rightarrow> False)"
| "py_eq (PList xs) w = (case w of PList ys \<Rightarrow> py_eq_list xs ys | _ \<Rightarrow> False)"
| "py_eq (PDict d) w =
     (case w of PDict e \<Rightarrow> length d = length e \<and> py_eq_dict d e | _ \<Rightarrow> False)"
| "py_eq_list [] ys = (ys = [])"
| "py_eq_list (x # xs) ys = (case ys of [] \<Rightarrow> False | y # ys' \<Rightarrow> py_eq x y \<and> py_eq_list xs ys')"
| "py_eq_dict [] e = True"
| "py_eq_dict ((k, v) # d) e =
     (case map_of e k of None \<Rightarrow> False | Some v' \<Rightarrow> py_eq v v' \<and> py_eq_dict d e)"

section \<open>Strings\<close>

text \<open>\<^verbatim>\<open>str(n)\<close> for an integer: decimal digits, a leading minus sign when negative.\<close>

definition digit_char :: "nat \<Rightarrow> char" where
  "digit_char d = ''0123456789'' ! (d mod 10)"

fun str_nat :: "nat \<Rightarrow> string" where
  "str_nat n = (if n < 10 then [digit_char n] else str_nat (n div 10) @ [digit_char (n mod 10)])"

definition str_int :: "int \<Rightarrow> string" where
  "str_int i = (if i < 0 then CHR ''-'' # str_nat (nat (- i)) else str_nat (nat i))"

text \<open>\<^verbatim>\<open>s.lower()\<close> on the code points below 256.\<close>

definition py_lower_char :: "char \<Rightarrow> char" where
  "py_lower_char c =
     (let n = (of_char c :: nat)
      in if (65 \<le> n \<and> n \<le> 90) \<or> (192 \<le> n \<and> n \<le> 222 \<and> n \<noteq> 215)
         then char_of (n + 32) else c)"

definition py_lower :: "string \<Rightarrow> string" where
  "py_lower s = map py_lower_char s"

text \<open>\<^verbatim>\<open>s.rsplit('.', 1)[-1]\<close>: what follows the last dot (all of \<open>s\<close> when it has none).\<close>

definition rsplit_dot_last :: "string \<Rightarrow> string" where
  "rsplit_dot_last s = rev (takeWhile (\<lambda>c. c \<noteq> CHR ''.'') (rev s))"

fun startswith :: "string \<Rightarrow> string \<Rightarrow> bool" where
  "startswith s [] = True"
| "startswith [] (p # ps) = False"
| "startswith (c # cs) (p # ps) = (c = p \<and> startswith cs ps)"

text \<open>\<^verbatim>\<open>sub in s\<close> on strings.\<close>

fun str_contains :: "string \<Rightarrow> string \<Rightarrow> bool" where
  "str_contains [] sub = (sub = [])"
| "str_contains (c # cs) sub = (startswith (c # cs) sub \<or> str_contains cs sub)"

text \<open>\<^verbatim>\<open>s.replace('Z', '+00:00')\<close>.\<close>

definition replace_Z :: "string \<Rightarrow> string" where
  "replace_Z s = concat (map (\<lambda>c. if c = CHR ''Z'' then ''+00:00'' else [c]) s)"

section \<open>Media Resolver: attachment naming (media\_downloader.py)\<close>

text \<open>\<^verbatim>\<open>_get_default_extension\<close>: the per-kind table, \<^verbatim>\<open>.bin\<close> for every other kind.\<close>

definition get_default_extension :: "string \<Rightarrow> string" where
  "get_default_extension media_type =
     (case map_of
        [(''photo'', ''.jpg''), (''video'', ''.mp4''), (''audio'', ''.mp3''),
         (''voice'', ''.ogg''), (''sticker'', ''.webp''), (''document'', ''.bin'')] media_type of
        None \<Rightarrow> ''.bin'' | Some e \<Rightarrow> e)"

text \<open>
  \<^verbatim>\<open>_generate_filename(media_type, original_filename, extension, message_id)\<close>.
  The two optional arguments are \<^verbatim>\<open>None\<close> or a string; the tests are truthiness
  tests, so an empty string counts as absent.
\<close>

definition generate_filename :: "string \<Rightarrow> string option \<Rightarrow> string option \<Rightarrow> int \<Rightarrow> string" where
  "generate_filename media_type original_filename extension message_id =
     (let filename = str_int message_id
      in case extension of
           Some e \<Rightarrow>
             if e \<noteq> [] then filename @ e
             else (case original_filename of
                     Some f \<Rightarrow>
                       if f \<noteq> [] \<and> CHR ''.'' \<in> set f
                       then filename @ (CHR ''.'' # py_lower (rsplit_dot_last f))
                       else filename @ get_default_extension media_type
                   | None \<Rightarrow> filename @ get_default_extension media_type)
         | None \<Rightarrow>
             (case original_filename of
                Some f \<Rightarrow>
                  if f \<noteq> [] \<and> CHR ''.'' \<in> set f
                  then filename @ (CHR ''.'' # py_lower (rsplit_dot_last f))
                  else filename @ get_default_extension media_type
              | None \<Rightarrow> filename @ get_default_extension media_type))"

text \<open>
  \<^verbatim>\<open>_get_file_extension_from_mime\<close>: \<^verbatim>\<open>mimetypes.guess_extension(mime) or '.bin'\<close>.
  The standard library's table is a parameter.
\<close>

definition get_file_extension_from_mime :: "(string \<Rightarrow> string option) \<Rightarrow> string \<Rightarrow> string" where
  "get_file_extension_from_mime guess_extension mime_type =
     (case guess_extension mime_type of
        None \<Rightarrow> ''.bin''
      | Some e \<Rightarrow> if e \<noteq> [] then e else ''.bin'')"


text \<open>
  The Telethon objects the resolver inspects.  A document carries its MIME type and a
  list of attributes; \<^verbatim>\<open>media.photo\<close>, \<^verbatim>\<open>media.document\<close> and the coordinates
  of \<^verbatim>\<open>media.geo\<close> may be missing, and reading a field of a missing object raises
  \<^verbatim>\<open>AttributeError\<close>.
\<close>

datatype doc_attr =
    AttrFilename string
  | AttrVideo pyval pyval pyval
  | AttrAudio pyval pyval pyval pyval
  | AttrImageSize pyval pyval
  | AttrOther

datatype tl_document =
  Document (doc_mime_type: string) (doc_attributes: "doc_attr list") (doc_size: pyval) (doc_date: pyval)

datatype tl_media =
    MediaPhoto "(pyval \<times> nat) option"
  | MediaDocument "tl_document option"
  | MediaContact pyval pyval pyval pyval
  | MediaGeo "(pyval \<times> pyval) option"
  | MediaOther

datatype tl_sender =
    SenderUser int pyval pyval pyval
  | SenderChannel int pyval
  | SenderOther int

datatype tl_message =
  Message (tl_id: int) (tl_to_dict: pydict) (tl_sender: "tl_sender option") (tl_media: "tl_media option")

text \<open>The dictionary \<^verbatim>\<open>_extract_media_info\<close> returns; an absent key reads as \<^verbatim>\<open>None\<close>.\<close>

datatype media_info =
  MediaInfo (mi_type: string) (mi_filename: "string option") (mi_extension: "string option")
    (mi_metadata: pydict)

fun is_voice_attr :: "doc_attr \<Rightarrow> bool" where
  "is_voice_attr (AttrAudio voice _ _ _) = truthy voice"
| "is_voice_attr _ = False"

definition classify_document :: "string \<Rightarrow> doc_attr list \<Rightarrow> string" where
  "classify_document mime_type attrs =
     (if startswith mime_type ''image/'' then ''photo''
      else if startswith mime_type ''video/'' then ''video''
      else if startswith mime_type ''audio/'' then
        (if str_contains mime_type ''voice'' \<or> attrs \<noteq> []
         then (if list_ex is_voice_attr attrs then ''voice'' else ''audio'')
         else ''audio'')
      else if startswith mime_type ''application/'' then ''document''
      else ''document'')"

fun first_filename :: "doc_attr list \<Rightarrow> string option" where
  "first_filename [] = None"
| "first_filename (AttrFilename f # _) = Some f"
| "first_filename (_ # attrs) = first_filename attrs"

fun metadata_update :: "pydict \<Rightarrow> doc_attr \<Rightarrow> pydict" where
  "metadata_update md (AttrVideo duration w h) =
     dict_set (dict_set (dict_set md ''duration'' duration) ''width'' w) ''height'' h"
| "metadata_update md (AttrAudio _ duration title performer) =
     dict_set (dict_set (dict_set md ''duration'' duration) ''title'' title) ''performer'' performer"
| "metadata_update md (AttrImageSize w h) =
     dict_set (dict_set md ''width'' w) ''height'' h"
| "metadata_update md _ = md"

definition extract_media_info ::
  "(string \<Rightarrow> string option) \<Rightarrow> tl_media \<Rightarrow> error + media_info option" where
  "extract_media_info guess_extension media =
     (case media of
        MediaPhoto photo \<Rightarrow>
          (case photo of
             None \<Rightarrow> Inl AttributeError
           | Some (date, sizes) \<Rightarrow>
               Inr (Some (MediaInfo ''photo'' None (Some ''.jpg'')
                           [(''date'', date), (''sizes'', PInt (int sizes))])))
      | MediaDocument document \<Rightarrow>
          (case document of
             None \<Rightarrow> Inl AttributeError
           | Some doc \<Rightarrow>
               (let mime_type = doc_mime_type doc;
                    media_type = classify_document mime_type (doc_attributes doc);
                    filename = first_filename (doc_attributes doc);
                    extension = get_file_extension_from_mime guess_extension mime_type;
                    metadata = foldl metadata_update
                      [(''mime_type'', PStr mime_type), (''size'', doc_size doc),
                       (''date'', doc_date doc)] (doc_attributes doc)
                in Inr (Some (MediaInfo media_type filename (Some extension) metadata))))
      | MediaContact phone first_name last_name user_id \<Rightarrow>
          Inr (Some (MediaInfo ''contact'' None None
                      [(''phone_number'', phone), (''first_name'', first_name),
                       (''last_name'', last_name), (''user_id'', user_id)]))
      | MediaGeo geo \<Rightarrow>
          (case geo of
             None \<Rightarrow> Inl AttributeError
           | Some (lat, long) \<Rightarrow>
               Inr (Some (MediaInfo ''location'' None None
                           [(''latitude'', lat), (''longitude'', long)])))
      | MediaOther \<Rightarrow> Inr None)"

text \<open>
  The file system is a map from paths to file contents.  \<^verbatim>\<open>_read_file_chunks\<close>
  reads \<open>chunk_size\<close> bytes at a time until a read returns nothing, and
  \<^verbatim>\<open>_calculate_file_hash\<close> feeds the chunks to MD5 in order; the digest function
  of \<^verbatim>\<open>hashlib\<close> is a parameter.
\<close>

type_synonym filesystem = "string \<rightharpoonup> string"

function read_file_chunks :: "nat \<Rightarrow> string \<Rightarrow> string list" where
  "read_file_chunks chunk_size content =
     (if take chunk_size content = [] then []
      else take chunk_size content # read_file_chunks chunk_size (drop chunk_size content))"
  by pat_completeness auto
termination
  by (relation "measure (\<lambda>(n, s). length s)") (auto simp: take_eq_Nil)

declare read_file_chunks.simps [simp del]

definition calculate_file_hash :: "(string \<Rightarrow> string) \<Rightarrow> string \<Rightarrow> string" where
  "calculate_file_hash md5 content = md5 (concat (read_file_chunks 8192 content))"

text \<open>The sub-directory of each kind below the download directory.\<close>

definition subdirs :: "string \<Rightarrow> string \<Rightarrow> string option" where
  "subdirs download_dir media_type =
     map_option (\<lambda>d. download_dir @ ''/'' @ d)
       (map_of [(''photo'', ''photos''), (''video'', ''videos''), (''audio'', ''audio''),
                (''document'', ''documents''), (''voice'', ''voice''), (''sticker'', ''stickers''),
                (''contact'', ''contacts''), (''location'', ''locations'')] media_type)"

text \<open>
  \<^verbatim>\<open>download_media\<close>.  The network fetch \<^verbatim>\<open>message.download_media(file=path)\<close>
  is a parameter.  It is handed the target path and writes to the files itself, so it
  takes the files as they are and returns them as it leaves them, together with what
  it did: it raised, it returned nothing, or it returned the path it saved to.  A fetch
  that fails may leave a file behind; nothing in \<^verbatim>\<open>download_media\<close> removes it.
  After a fetch that returned a path, the file at that path is read for its hash and
  size; when it is not there, opening it raises.  The result is the descriptor (or
  \<^verbatim>\<open>None\<close>), the files afterwards, and whether the fetch was called.  Every
  exception is caught and gives \<^verbatim>\<open>None\<close>.
\<close>

record media_env =
  guess_extension :: "string \<Rightarrow> string option"
  md5_hexdigest :: "string \<Rightarrow> string"
  fetch :: "filesystem \<Rightarrow> tl_message \<Rightarrow> string \<Rightarrow> filesystem \<times> (error + string option)"

definition target_path :: "media_env \<Rightarrow> string \<Rightarrow> tl_message \<Rightarrow> string option" where
  "target_path env download_dir message =
     (case tl_media message of
        None \<Rightarrow> None
      | Some media \<Rightarrow>
          (case extract_media_info (guess_extension env) media of
             Inl _ \<Rightarrow> None
           | Inr None \<Rightarrow> None
           | Inr (Some info) \<Rightarrow>
               (case subdirs download_dir (mi_type info) of
                  None \<Rightarrow> None
                | Some save_dir \<Rightarrow>
                    Some (save_dir @ ''/'' @
                      generate_filename (mi_type info) (mi_filename info) (mi_extension info)
                        (tl_id message)))))"

definition download_media ::
  "media_env \<Rightarrow> string \<Rightarrow> filesystem \<Rightarrow> tl_message \<Rightarrow> pydict option \<times> filesystem \<times> bool" where
  "download_media env download_dir fs message =
     (case tl_media message of
        None \<Rightarrow> (None, fs, False)
      | Some media \<Rightarrow>
          (case extract_media_info (guess_extension env) media of
             Inl _ \<Rightarrow> (None, fs, False)
           | Inr None \<Rightarrow> (None, fs, False)
           | Inr (Some info) \<Rightarrow>
               (case subdirs download_dir (mi_type info) of
                  None \<Rightarrow> (None, fs, False)
                | Some save_dir \<Rightarrow>
                    (let filename = generate_filename (mi_type info) (mi_filename info)
                                      (mi_extension info) (tl_id message);
                         file_path = save_dir @ ''/'' @ filename
                     in case fs file_path of
                          Some content \<Rightarrow>
                            (Some [(''type'', PStr (mi_type info)),
                                   (''file_path'', PStr file_path),
                                   (''file_size'', PInt (int (length content))),
                                   (''file_hash'', PStr (calculate_file_hash (md5_hexdigest env) content)),
                                   (''downloaded'', PBool False),
                                   (''reason'', PStr ''already_exists'')], fs, False)
                        | None \<Rightarrow>
                            (case fetch env fs message file_path of
                               (fs', Inl _) \<Rightarrow> (None, fs', True)
                             | (fs', Inr None) \<Rightarrow> (None, fs', True)
                             | (fs', Inr (Some downloaded_path)) \<Rightarrow>
                                 (if downloaded_path = [] then (None, fs', True)
                                  else
                                    (case fs' downloaded_path of
                                       None \<Rightarrow> (None, fs', True)
                                     | Some bytes \<Rightarrow>
                                         (Some [(''type'', PStr (mi_type info)),
                                                (''file_path'', PStr downloaded_path),
                                                (''file_size'', PInt (int (length bytes))),
                                                (''file_hash'', PStr (calculate_file_hash (md5_hexdigest env) bytes)),
                                                (''downloaded'', PBool True),
                                                (''metadata'', PDict (mi_metadata info))],
                                          fs', True))))))))"


text \<open>
  The resolution order as the specification words it: explicit override, then the
  original filename's extension, then the MIME-derived extension, then the per-kind
  default.  It is compared with the code below.
\<close>

definition spec_resolved_extension ::
  "string option \<Rightarrow> string option \<Rightarrow> string option \<Rightarrow> string \<Rightarrow> string" where
  "spec_resolved_extension explicit_override original_filename mime_extension kind =
     (case explicit_override of
        Some e \<Rightarrow> e
      | None \<Rightarrow>
          (if (case original_filename of Some f \<Rightarrow> CHR ''.'' \<in> set f | None \<Rightarrow> False)
           then (case original_filename of
                   Some f \<Rightarrow> CHR ''.'' # py_lower (rsplit_dot_last f) | None \<Rightarrow> [])
           else (case mime_extension of
                   Some e \<Rightarrow> e
                 | None \<Rightarrow> get_default_extension kind)))"

text \<open>Sample collaborators for the concrete runs: a small MIME table, a toy digest, and
  a fetch that saves four bytes at the requested path, one that reports nothing, and
  one that writes two bytes at the requested path and then raises.\<close>

definition sample_guess :: "string \<Rightarrow> string option" where
  "sample_guess mime =
     map_of [(''application/pdf'', ''.pdf''), (''audio/mpeg'', ''.mp3''),
             (''video/mp4'', ''.mp4''), (''image/jpeg'', ''.jpg'')] mime"

definition sample_env :: media_env where
  "sample_env =
     \<lparr>guess_extension = sample_guess,
      md5_hexdigest = (\<lambda>content. str_nat (length content)),
      fetch = (\<lambda>fs message path. (fs(path \<mapsto> ''data''), Inr (Some path)))\<rparr>"

definition offline_env :: media_env where
  "offline_env =
     \<lparr>guess_extension = sample_guess,
      md5_hexdigest = (\<lambda>content. str_nat (length content)),
      fetch = (\<lambda>fs message path. (fs, Inr None))\<rparr>"

definition broken_env :: media_env where
  "broken_env =
     \<lparr>guess_extension = sample_guess,
      md5_hexdigest = (\<lambda>content. str_nat (length content)),
      fetch = (\<lambda>fs message path. (fs(path \<mapsto> ''da''), Inl OtherError))\<rparr>"

definition sample_document_message :: tl_message where
  "sample_document_message =
     Message 7 [(''id'', PInt 7)] None
       (Some (MediaDocument (Some (Document ''application/pdf'' [AttrFilename ''report.txt'']
          (PInt 4) PNone))))"

section \<open>Data Validator (data\_validator.py)\<close>

text \<open>
  The standard-library functions the validator and the filters call are parameters:
  \<^verbatim>\<open>datetime.fromisoformat\<close> (\<open>None\<close> for \<^verbatim>\<open>ValueError\<close>), \<^verbatim>\<open>datetime.isoformat\<close>,
  \<^verbatim>\<open>html.unescape\<close>, and \<^verbatim>\<open>re.search(pattern, text, re.IGNORECASE)\<close> for the
  user's patterns (an error for a pattern that does not compile).
\<close>

record stdlib =
  fromisoformat :: "string \<Rightarrow> pydt option"
  isoformat :: "pydt \<Rightarrow> string"
  html_unescape :: "string \<Rightarrow> string"
  re_search :: "string \<Rightarrow> string \<Rightarrow> error + bool"

text \<open>The validator's settings, read from its configuration with these defaults.\<close>

record validator_config =
  max_text_length :: int
  min_text_length :: int
  remove_empty_messages :: bool
  remove_deleted_users :: bool
  validate_dates :: bool
  clean_html :: bool
  remove_duplicates :: bool

definition default_validator_config :: validator_config where
  "default_validator_config =
     \<lparr>max_text_length = 10000, min_text_length = 0, remove_empty_messages = True,
      remove_deleted_users = True, validate_dates = True, clean_html = True,
      remove_duplicates = True\<rparr>"

text \<open>The reasons \<^verbatim>\<open>validate_message\<close> reports, one per message text of the source.\<close>

datatype reason =
    MissingField string
  | BadId
  | BadDate
  | TextNotString
  | TextTooShort int
  | TextTooLong int
  | DeletedUser
  | ValidationError error

text \<open>\<^verbatim>\<open>isinstance(v, int) and v > 0\<close>: a Python \<^verbatim>\<open>bool\<close> is an \<^verbatim>\<open>int\<close>.\<close>

fun is_positive_int :: "pyval \<Rightarrow> bool" where
  "is_positive_int (PInt n) = (0 < n)"
| "is_positive_int (PBool b) = b"
| "is_positive_int _ = False"

fun first_missing :: "string list \<Rightarrow> pydict \<Rightarrow> string option" where
  "first_missing [] message = None"
| "first_missing (field # rest) message =
     (if \<not> dict_has message field then Some field else first_missing rest message)"

definition date_check_fails :: "stdlib \<Rightarrow> pyval \<Rightarrow> bool" where
  "date_check_fails lib date_str =
     (case date_str of
        PStr s \<Rightarrow> fromisoformat lib (replace_Z s) = None
      | _ \<Rightarrow> False)"

definition validate_message ::
  "stdlib \<Rightarrow> validator_config \<Rightarrow> pydict \<Rightarrow> bool \<times> reason option" where
  "validate_message lib cfg message =
     (case first_missing [''id'', ''date'', ''message''] message of
        Some field \<Rightarrow> (False, Some (MissingField field))
      | None \<Rightarrow>
          if \<not> is_positive_int (dict_get message ''id'' PNone) then (False, Some BadId)
          else if validate_dates cfg \<and> date_check_fails lib (dict_get message ''date'' PNone)
          then (False, Some BadDate)
          else
            (case dict_get message ''message'' (PStr []) of
               PStr text \<Rightarrow>
                 if int (length text) < min_text_length cfg
                 then (False, Some (TextTooShort (min_text_length cfg)))
                 else if int (length text) > max_text_length cfg
                 then (False, Some (TextTooLong (max_text_length cfg)))
                 else if remove_deleted_users cfg then
                   (case dict_get message ''sender_info'' (PDict []) of
                      PDict sender_info \<Rightarrow>
                        if truthy (dict_get sender_info ''deleted'' (PBool False))
                        then (False, Some DeletedUser)
                        else (True, None)
                    | _ \<Rightarrow> (False, Some (ValidationError AttributeError)))
                 else (True, None)
             | _ \<Rightarrow> (False, Some TextNotString)))"

text \<open>
  Text cleaning.  \<^verbatim>\<open>\s\<close> and \<^verbatim>\<open>strip()\<close> use Python's whitespace, which below 256
  is 9--13, 28--32, 133 and 160; the last substitution removes the control characters
  \<^verbatim>\<open>[\x00-\x08\x0B\x0C\x0E-\x1F\x7F]\<close>.
\<close>

definition py_isspace :: "char \<Rightarrow> bool" where
  "py_isspace c =
     (let n = (of_char c :: nat)
      in (9 \<le> n \<and> n \<le> 13) \<or> (28 \<le> n \<and> n \<le> 32) \<or> n = 133 \<or> n = 160)"

fun collapse_ws :: "bool \<Rightarrow> string \<Rightarrow> string" where
  "collapse_ws in_run [] = []"
| "collapse_ws in_run (c # cs) =
     (if py_isspace c
      then (if in_run then collapse_ws True cs else CHR '' '' # collapse_ws True cs)
      else c # collapse_ws False cs)"

definition py_strip :: "string \<Rightarrow> string" where
  "py_strip s = rev (dropWhile py_isspace (rev (dropWhile py_isspace s)))"

definition is_control_char :: "char \<Rightarrow> bool" where
  "is_control_char c =
     (let n = (of_char c :: nat)
      in n \<le> 8 \<or> n = 11 \<or> n = 12 \<or> (14 \<le> n \<and> n \<le> 31) \<or> n = 127)"

definition clean_text :: "stdlib \<Rightarrow> validator_config \<Rightarrow> string \<Rightarrow> string" where
  "clean_text lib cfg text0 =
     (let text1 = (if clean_html cfg then html_unescape lib text0 else text0);
          text2 = py_strip (collapse_ws False text1);
          text3 = filter (\<lambda>c. \<not> is_control_char c) text2
      in text3)"

text \<open>\<^verbatim>\<open>clean_message\<close>: the steps of the source in order, on a copy of the record.\<close>

definition clean_message_text :: "stdlib \<Rightarrow> validator_config \<Rightarrow> pydict \<Rightarrow> pydict" where
  "clean_message_text lib cfg cleaned =
     (case map_of cleaned ''message'' of
        Some (PStr text) \<Rightarrow> dict_set cleaned ''message'' (PStr (clean_text lib cfg text))
      | _ \<Rightarrow> cleaned)"

definition clean_message_date :: "stdlib \<Rightarrow> pydict \<Rightarrow> pydict" where
  "clean_message_date lib cleaned =
     (case map_of cleaned ''date'' of
        Some (PStr date_str) \<Rightarrow>
          (case fromisoformat lib (replace_Z date_str) of
             Some dt \<Rightarrow> dict_set cleaned ''date'' (PStr (isoformat lib dt))
           | None \<Rightarrow> cleaned)
      | _ \<Rightarrow> cleaned)"

definition clean_message_sender :: "pydict \<Rightarrow> pydict" where
  "clean_message_sender cleaned =
     (case map_of cleaned ''sender_info'' of
        Some (PDict sender_info) \<Rightarrow>
          dict_set cleaned ''sender_info'' (PDict (filter (\<lambda>kv. snd kv \<noteq> PNone) sender_info))
      | _ \<Rightarrow> cleaned)"

definition clean_message_media_key :: "pydict \<Rightarrow> string \<Rightarrow> pydict" where
  "clean_message_media_key cleaned media_key =
     (case map_of cleaned media_key of
        Some v \<Rightarrow> if \<not> truthy v then dict_del cleaned media_key else cleaned
      | None \<Rightarrow> cleaned)"

definition clean_message :: "stdlib \<Rightarrow> validator_config \<Rightarrow> pydict \<Rightarrow> pydict" where
  "clean_message lib cfg message =
     foldl clean_message_media_key
       (clean_message_sender (clean_message_date lib (clean_message_text lib cfg message)))
       [''photo'', ''video'', ''audio'', ''document'', ''sticker'']"

text \<open>
  \<^verbatim>\<open>remove_duplicates_from_list\<close>.  The set of seen ids is kept as a list; membership
  in a Python set needs a hashable value (lists and dictionaries raise
  \<^verbatim>\<open>TypeError\<close>) and compares with \<^verbatim>\<open>==\<close>.
\<close>

fun hashable :: "pyval \<Rightarrow> bool" where
  "hashable (PList _) = False"
| "hashable (PDict _) = False"
| "hashable _ = True"

fun dedup_loop :: "pyval list \<Rightarrow> pydict list \<Rightarrow> error + pydict list" where
  "dedup_loop seen_ids [] = Inr []"
| "dedup_loop seen_ids (message # messages) =
     (let message_id = dict_get message ''id'' PNone
      in if truthy message_id then
           (if \<not> hashable message_id then Inl TypeError
            else if \<not> list_ex (py_eq message_id) seen_ids then
              (case dedup_loop (message_id # seen_ids) messages of
                 Inl e \<Rightarrow> Inl e
               | Inr unique_messages \<Rightarrow> Inr (message # unique_messages))
            else dedup_loop seen_ids messages)
         else
           (case dedup_loop seen_ids messages of
              Inl e \<Rightarrow> Inl e
            | Inr unique_messages \<Rightarrow> Inr (message # unique_messages)))"

definition remove_duplicates_from_list ::
  "validator_config \<Rightarrow> pydict list \<Rightarrow> error + pydict list" where
  "remove_duplicates_from_list cfg messages =
     (if \<not> remove_duplicates cfg then Inr messages else dedup_loop [] messages)"

text \<open>\<^verbatim>\<open>validate_and_clean_batch\<close>: the loop, then the duplicate removal.\<close>

fun validate_loop ::
  "stdlib \<Rightarrow> validator_config \<Rightarrow> pydict list \<Rightarrow> pydict list \<times> (pydict \<times> reason option) list" where
  "validate_loop lib cfg [] = ([], [])"
| "validate_loop lib cfg (message # messages) =
     (let (is_valid, err) = validate_message lib cfg message;
          (valid_messages, invalid_messages) = validate_loop lib cfg messages
      in if is_valid
         then (clean_message lib cfg message # valid_messages, invalid_messages)
         else (valid_messages, (message, err) # invalid_messages))"

definition validate_and_clean_batch ::
  "stdlib \<Rightarrow> validator_config \<Rightarrow> pydict list
     \<Rightarrow> error + (pydict list \<times> (pydict \<times> reason option) list)" where
  "validate_and_clean_batch lib cfg messages =
     (let (valid_messages, invalid_messages) = validate_loop lib cfg messages
      in case remove_duplicates_from_list cfg valid_messages of
           Inl e \<Rightarrow> Inl e
         | Inr unique_messages \<Rightarrow> Inr (unique_messages, invalid_messages))"

text \<open>A sample standard library for the concrete runs: dates are accepted when they
  have the ten characters of \<^verbatim>\<open>YYYY-MM-DD\<close>, and are printed back unchanged.\<close>

definition sample_parse_date :: "string \<Rightarrow> pydt option" where
  "sample_parse_date s =
     (if length s = 10 \<and> s ! 4 = CHR ''-'' \<and> s ! 7 = CHR ''-'' then Some (DT 0 None) else None)"

definition sample_lib :: stdlib where
  "sample_lib =
     \<lparr>fromisoformat = sample_parse_date,
      isoformat = (\<lambda>dt. ''1970-01-01T00:00:00''),
      html_unescape = (\<lambda>s. s),
      re_search = (\<lambda>pattern text. Inr (str_contains text pattern))\<rparr>"

text \<open>
  Validity as the specification words it: the three fields are present, the id is a
  positive integer, the date is a timestamp (a string that parses, or a datetime), the
  text is a string within the length bounds and, when deleted-user removal is on, the
  sender is not flagged deleted.  It is compared with \<open>validate_message\<close> below.
\<close>

definition sender_flagged_deleted :: "pydict \<Rightarrow> bool" where
  "sender_flagged_deleted message =
     (case map_of message ''sender_info'' of
        Some (PDict sender_info) \<Rightarrow> truthy (dict_get sender_info ''deleted'' (PBool False))
      | _ \<Rightarrow> False)"

definition spec_valid :: "stdlib \<Rightarrow> validator_config \<Rightarrow> pydict \<Rightarrow> bool" where
  "spec_valid lib cfg message =
     (dict_has message ''id'' \<and> dict_has message ''date'' \<and> dict_has message ''message''
      \<and> (case dict_get message ''id'' PNone of PInt n \<Rightarrow> 0 < n | _ \<Rightarrow> False)
      \<and> (case dict_get message ''date'' PNone of
            PStr s \<Rightarrow> fromisoformat lib (replace_Z s) \<noteq> None
          | PDatetime _ \<Rightarrow> True
          | _ \<Rightarrow> False)
      \<and> (case dict_get message ''message'' PNone of
            PStr text \<Rightarrow> min_text_length cfg \<le> int (length text)
                          \<and> int (length text) \<le> max_text_length cfg
          | _ \<Rightarrow> False)
      \<and> (if remove_deleted_users cfg then \<not> sender_flagged_deleted message else True))"

definition undated_message :: pydict where
  "undated_message = [(''id'', PInt 1), (''date'', PNone), (''message'', PStr ''hi'')]"

definition sample_message :: "int \<Rightarrow> string \<Rightarrow> pydict" where
  "sample_message n text =
     [(''id'', PInt n), (''date'', PStr ''2025-07-20''), (''message'', PStr text)]"

text \<open>A batch of two records with the same id, the first with sender information, the
  second without; and the default settings with duplicate removal switched off.\<close>

definition duplicate_first :: pydict where
  "duplicate_first =
     [(''id'', PInt 5), (''date'', PStr ''2025-07-20''), (''message'', PStr ''hello''),
      (''sender_info'', PDict [(''id'', PInt 9)])]"

definition duplicate_second :: pydict where
  "duplicate_second =
     [(''id'', PInt 5), (''date'', PStr ''2025-07-20''), (''message'', PStr ''hello'')]"

definition keep_duplicates_config :: validator_config where
  "keep_duplicates_config = default_validator_config\<lparr>remove_duplicates := False\<rparr>"

text \<open>The id of a record as the duplicate removal reads it, \<^verbatim>\<open>message.get('id')\<close>.\<close>

abbreviation (input) msg_id :: "pydict \<Rightarrow> pyval" where
  "msg_id m \<equiv> dict_get m ''id'' PNone"

section \<open>Content Filter (content\_filter.py)\<close>

text \<open>
  The filter values come from an untyped configuration mapping, so each predicate is
  modelled on arbitrary Python values: iteration, \<^verbatim>\<open>in\<close>, \<^verbatim>\<open>len\<close> and the
  comparisons raise \<^verbatim>\<open>TypeError\<close> where Python does.
\<close>

fun py_iter :: "pyval \<Rightarrow> error + pyval list" where
  "py_iter (PList xs) = Inr xs"
| "py_iter (PStr s) = Inr (map (\<lambda>c. PStr [c]) s)"
| "py_iter (PDict d) = Inr (map (\<lambda>kv. PStr (fst kv)) d)"
| "py_iter _ = Inl TypeError"

fun py_contains :: "pyval \<Rightarrow> pyval \<Rightarrow> error + bool" where
  "py_contains (PList xs) x = Inr (list_ex (py_eq x) xs)"
| "py_contains (PStr s) x = (case x of PStr t \<Rightarrow> Inr (str_contains s t) | _ \<Rightarrow> Inl TypeError)"
| "py_contains (PDict d) x =
     (if \<not> hashable x then Inl TypeError
      else Inr (case x of PStr k \<Rightarrow> dict_has d k | _ \<Rightarrow> False))"
| "py_contains _ x = Inl TypeError"

fun py_len :: "pyval \<Rightarrow> error + nat" where
  "py_len (PStr s) = Inr (length s)"
| "py_len (PList xs) = Inr (length xs)"
| "py_len (PDict d) = Inr (length d)"
| "py_len _ = Inl TypeError"

text \<open>\<^verbatim>\<open>a < b\<close> on datetimes: comparing a naive with an aware one raises.\<close>

definition dt_less :: "pydt \<Rightarrow> pydt \<Rightarrow> error + bool" where
  "dt_less a b =
     (case (dt_offset a, dt_offset b) of
        (None, None) \<Rightarrow> Inr (dt_local a < dt_local b)
      | (Some oa, Some ob) \<Rightarrow> Inr (dt_local a - oa < dt_local b - ob)
      | _ \<Rightarrow> Inl TypeError)"

text \<open>\<^verbatim>\<open>_filter_by_media_type\<close>.\<close>

definition media_types :: "pydict \<Rightarrow> (string \<times> bool) list" where
  "media_types message =
     [(''text'', truthy (dict_get message ''message'' PNone)),
      (''photo'', truthy (dict_get message ''photo'' PNone)),
      (''video'', truthy (dict_get message ''video'' PNone)),
      (''audio'', truthy (dict_get message ''audio'' PNone)),
      (''document'', truthy (dict_get message ''document'' PNone)),
      (''sticker'', truthy (dict_get message ''sticker'' PNone)),
      (''voice'', truthy (dict_get message ''voice'' PNone)),
      (''video_note'', truthy (dict_get message ''video_note'' PNone)),
      (''contact'', truthy (dict_get message ''contact'' PNone)),
      (''location'', truthy (dict_get message ''geo'' PNone)),
      (''poll'', truthy (dict_get message ''poll'' PNone)),
      (''game'', truthy (dict_get message ''game'' PNone))]"

fun any_media_type :: "(string \<times> bool) list \<Rightarrow> pyval list \<Rightarrow> error + bool" where
  "any_media_type table [] = Inr False"
| "any_media_type table (media_type # rest) =
     (if \<not> hashable media_type then Inl TypeError
      else if (case media_type of
                 PStr k \<Rightarrow> (case map_of table k of Some b \<Rightarrow> b | None \<Rightarrow> False)
               | _ \<Rightarrow> False)
      then Inr True
      else any_media_type table rest)"

definition filter_by_media_type :: "pydict \<Rightarrow> pyval \<Rightarrow> error + bool" where
  "filter_by_media_type message allowed_types =
     (if \<not> truthy allowed_types then Inr True
      else case py_iter allowed_types of
             Inl e \<Rightarrow> Inl e
           | Inr xs \<Rightarrow> any_media_type (media_types message) xs)"

text \<open>\<^verbatim>\<open>_filter_by_text_patterns\<close>: \<^verbatim>\<open>any(re.search(p, text, re.IGNORECASE) ...)\<close>.\<close>

fun any_pattern :: "stdlib \<Rightarrow> pyval \<Rightarrow> pyval list \<Rightarrow> error + bool" where
  "any_pattern lib text [] = Inr False"
| "any_pattern lib text (pattern # rest) =
     (case (pattern, text) of
        (PStr p, PStr t) \<Rightarrow>
          (case re_search lib p t of
             Inl e \<Rightarrow> Inl e
           | Inr True \<Rightarrow> Inr True
           | Inr False \<Rightarrow> any_pattern lib text rest)
      | _ \<Rightarrow> Inl TypeError)"

definition filter_by_text_patterns :: "stdlib \<Rightarrow> pydict \<Rightarrow> pyval \<Rightarrow> error + bool" where
  "filter_by_text_patterns lib message patterns =
     (if \<not> truthy patterns then Inr True
      else let text = dict_get message ''message'' (PStr [])
           in if \<not> truthy text then Inr False
              else case py_iter patterns of
                     Inl e \<Rightarrow> Inl e
                   | Inr ps \<Rightarrow> any_pattern lib text ps)"

text \<open>\<^verbatim>\<open>_filter_by_date_range\<close>.  A bound is read with \<^verbatim>\<open>'start' in date_range\<close> and
  \<^verbatim>\<open>date_range['start']\<close>; subscripting a list or a string with a string raises.\<close>

definition message_date :: "stdlib \<Rightarrow> pydict \<Rightarrow> error + pydt" where
  "message_date lib message =
     (case dict_get message ''date'' (PStr []) of
        PStr s \<Rightarrow>
          (case fromisoformat lib (replace_Z s) of
             None \<Rightarrow> Inl ValueError
           | Some dt \<Rightarrow> Inr dt)
      | PDatetime _ \<Rightarrow> Inl TypeError
      | _ \<Rightarrow> Inl AttributeError)"

definition range_bound :: "stdlib \<Rightarrow> pyval \<Rightarrow> string \<Rightarrow> error + pydt option" where
  "range_bound lib date_range key =
     (case py_contains date_range (PStr key) of
        Inl e \<Rightarrow> Inl e
      | Inr False \<Rightarrow> Inr None
      | Inr True \<Rightarrow>
          (case date_range of
             PDict d \<Rightarrow>
               (case dict_get d key PNone of
                  PStr s \<Rightarrow>
                    (case fromisoformat lib s of
                       None \<Rightarrow> Inl ValueError
                     | Some dt \<Rightarrow> Inr (Some dt))
                | _ \<Rightarrow> Inl TypeError)
           | _ \<Rightarrow> Inl TypeError))"

definition filter_by_date_range :: "stdlib \<Rightarrow> pydict \<Rightarrow> pyval \<Rightarrow> error + bool" where
  "filter_by_date_range lib message date_range =
     (if \<not> truthy date_range then Inr True
      else case message_date lib message of
             Inl e \<Rightarrow> Inl e
           | Inr md \<Rightarrow>
               (case range_bound lib date_range ''start'' of
                  Inl e \<Rightarrow> Inl e
                | Inr start_date \<Rightarrow>
                    (case range_bound lib date_range ''end'' of
                       Inl e \<Rightarrow> Inl e
                     | Inr end_date \<Rightarrow>
                         (case (case start_date of None \<Rightarrow> Inr False | Some sd \<Rightarrow> dt_less md sd) of
                            Inl e \<Rightarrow> Inl e
                          | Inr True \<Rightarrow> Inr False
                          | Inr False \<Rightarrow>
                              (case (case end_date of None \<Rightarrow> Inr False | Some ed \<Rightarrow> dt_less ed md) of
                                 Inl e \<Rightarrow> Inl e
                               | Inr True \<Rightarrow> Inr False
                               | Inr False \<Rightarrow> Inr True)))))"

text \<open>\<^verbatim>\<open>_filter_by_sender\<close> and \<^verbatim>\<open>_filter_by_length\<close>.\<close>

definition filter_by_sender :: "pydict \<Rightarrow> pyval \<Rightarrow> error + bool" where
  "filter_by_sender message sender_ids =
     (if \<not> truthy sender_ids then Inr True
      else case dict_get message ''sender_info'' (PDict []) of
             PDict sender_info \<Rightarrow> py_contains sender_ids (dict_get sender_info ''id'' PNone)
           | _ \<Rightarrow> Inl AttributeError)"

definition filter_by_length :: "pydict \<Rightarrow> pyval \<Rightarrow> error + bool" where
  "filter_by_length message min_length =
     (if \<not> truthy min_length then Inr True
      else case py_len (dict_get message ''message'' (PStr [])) of
             Inl e \<Rightarrow> Inl e
           | Inr n \<Rightarrow>
               (case min_length of
                  PInt k \<Rightarrow> Inr (int n \<ge> k)
                | PBool b \<Rightarrow> Inr (int n \<ge> (if b then 1 else 0))
                | _ \<Rightarrow> Inl TypeError))"

text \<open>
  The two fixed patterns: \<^verbatim>\<open>https?://\S+|www\.\S+\<close> and \<^verbatim>\<open>@\w+\<close>.  A word
  character below 256 is a letter, a digit, the underscore, or one of the Latin-1
  letters and numerals.
\<close>

definition then_nonspace :: "string \<Rightarrow> string \<Rightarrow> bool" where
  "then_nonspace p s =
     (startswith s p \<and> (case drop (length p) s of [] \<Rightarrow> False | c # _ \<Rightarrow> \<not> py_isspace c))"

fun url_search :: "string \<Rightarrow> bool" where
  "url_search [] = False"
| "url_search (c # cs) =
     (then_nonspace ''http://'' (c # cs) \<or> then_nonspace ''https://'' (c # cs)
      \<or> then_nonspace ''www.'' (c # cs) \<or> url_search cs)"

definition py_isword :: "char \<Rightarrow> bool" where
  "py_isword c =
     (let n = (of_char c :: nat)
      in (48 \<le> n \<and> n \<le> 57) \<or> (65 \<le> n \<and> n \<le> 90) \<or> n = 95 \<or> (97 \<le> n \<and> n \<le> 122)
         \<or> n = 170 \<or> n = 178 \<or> n = 179 \<or> n = 181 \<or> n = 185 \<or> n = 186
         \<or> (188 \<le> n \<and> n \<le> 190) \<or> (192 \<le> n \<and> n \<le> 214) \<or> (216 \<le> n \<and> n \<le> 246)
         \<or> 248 \<le> n)"

fun mention_search :: "string \<Rightarrow> bool" where
  "mention_search [] = False"
| "mention_search [c] = False"
| "mention_search (c # d # cs) = ((c = CHR ''@'' \<and> py_isword d) \<or> mention_search (d # cs))"

definition filter_by_links :: "pydict \<Rightarrow> pyval \<Rightarrow> error + bool" where
  "filter_by_links message has_links =
     (if has_links = PNone then Inr True
      else case dict_get message ''message'' (PStr []) of
             PStr text \<Rightarrow> Inr (py_eq (PBool (url_search text)) has_links)
           | _ \<Rightarrow> Inl TypeError)"

definition filter_by_mentions :: "pydict \<Rightarrow> pyval \<Rightarrow> error + bool" where
  "filter_by_mentions message has_mentions =
     (if has_mentions = PNone then Inr True
      else case dict_get message ''message'' (PStr []) of
             PStr text \<Rightarrow> Inr (py_eq (PBool (mention_search text)) has_mentions)
           | _ \<Rightarrow> Inl TypeError)"

definition filter_by_forwarded :: "pydict \<Rightarrow> pyval \<Rightarrow> error + bool" where
  "filter_by_forwarded message is_forwarded =
     (if is_forwarded = PNone then Inr True
      else Inr (py_eq (PBool (truthy (dict_get message ''fwd_from'' PNone))) is_forwarded))"

definition filter_by_edited :: "pydict \<Rightarrow> pyval \<Rightarrow> error + bool" where
  "filter_by_edited message is_edited =
     (if is_edited = PNone then Inr True
      else Inr (py_eq (PBool (truthy (dict_get message ''edit_date'' PNone))) is_edited))"

text \<open>The table \<^verbatim>\<open>self.filters\<close> of \<^verbatim>\<open>__init__\<close>, and \<^verbatim>\<open>apply_filters\<close>.\<close>

definition filters :: "stdlib \<Rightarrow> (string \<times> (pydict \<Rightarrow> pyval \<Rightarrow> error + bool)) list" where
  "filters lib =
     [(''media_types'', filter_by_media_type),
      (''text_patterns'', filter_by_text_patterns lib),
      (''date_range'', filter_by_date_range lib),
      (''sender_ids'', filter_by_sender),
      (''min_length'', filter_by_length),
      (''has_links'', filter_by_links),
      (''has_mentions'', filter_by_mentions),
      (''is_forwarded'', filter_by_forwarded),
      (''is_edited'', filter_by_edited)]"

fun apply_filters :: "stdlib \<Rightarrow> pydict \<Rightarrow> pydict \<Rightarrow> error + bool" where
  "apply_filters lib message [] = Inr True"
| "apply_filters lib message ((filter_name, filter_config) # rest) =
     (case map_of (filters lib) filter_name of
        None \<Rightarrow> apply_filters lib message rest
      | Some f \<Rightarrow>
          (case f message filter_config of
             Inl e \<Rightarrow> Inl e
           | Inr False \<Rightarrow> Inr False
           | Inr True \<Rightarrow> apply_filters lib message rest))"

text \<open>The two records and the filter specification of the conjunction example.\<close>

definition short_link_message :: pydict where
  "short_link_message = [(''id'', PInt 1), (''message'', PStr ''www.a'')]"

definition long_link_message :: pydict where
  "long_link_message = [(''id'', PInt 2), (''message'', PStr ''x http://example.com'')]"

definition length_and_links :: pydict where
  "length_and_links = [(''min_length'', PInt 10), (''has_links'', PBool True)]"

section \<open>Resume Tracker (resume\_manager.py)\<close>

text \<open>
  One checkpoint file per chat: absent, unreadable, or a JSON object.  \<open>save_progress\<close>
  overwrites it, \<open>mark_completed\<close> deletes it, \<open>check_resume_point\<close> reads the
  cursor (\<^verbatim>\<open>None\<close> when there is none).
\<close>

datatype checkpoint_file = Corrupt | Progress pydict

type_synonym resume_store = "int \<rightharpoonup> checkpoint_file"

definition save_progress ::
  "string \<Rightarrow> resume_store \<Rightarrow> int \<Rightarrow> pyval \<Rightarrow> nat \<Rightarrow> pydict \<Rightarrow> resume_store" where
  "save_progress now store chat last_message_id total_count metadata =
     store(chat \<mapsto> Progress
       [(''chat_id'', PInt chat), (''last_message_id'', last_message_id),
        (''total_downloaded'', PInt (int total_count)), (''metadata'', PDict metadata),
        (''timestamp'', PStr now), (''status'', PStr ''in_progress'')])"

definition load_progress :: "resume_store \<Rightarrow> int \<Rightarrow> pydict option" where
  "load_progress store chat =
     (case store chat of Some (Progress d) \<Rightarrow> Some d | _ \<Rightarrow> None)"

definition mark_completed :: "resume_store \<Rightarrow> int \<Rightarrow> resume_store" where
  "mark_completed store chat = store(chat := None)"

definition check_resume_point :: "resume_store \<Rightarrow> int \<Rightarrow> pyval" where
  "check_resume_point store chat =
     (case load_progress store chat of
        None \<Rightarrow> PNone
      | Some progress \<Rightarrow>
          if progress \<noteq> [] \<and> dict_has progress ''last_message_id''
          then dict_get progress ''last_message_id'' PNone
          else PNone)"

section \<open>The chat export (telegram\_downloader.py)\<close>

text \<open>
  The message source yields Telethon messages (or a falsy item), and may raise, which
  ends the export.  What the export does to the outside world is logged in order:
  network fetches of attachments, checkpoint writes, output writes (and the writes of
  a format that failed, whose exception is swallowed), the validation report, and the
  deletion of the checkpoint.

  The collaborators outside the repository are parameters of the environment: whether
  resolving the chat raises, whether computing the offset date from \<^verbatim>\<open>days_limit\<close>
  raises, whether the writer of a format raises on the data, whether writing the
  validation report raises, and whether deleting the checkpoint file raises.  The chat
  id and title of the options are the ones the resolution gives when it succeeds.
\<close>

datatype pull = Yield tl_message | YieldNone | Raise error

datatype effect =
    FetchedMedia int
  | SavedProgress int pyval nat
  | WroteOutput string "pydict list"
  | FailedOutput string
  | WroteValidationReport
  | MarkedCompleted int

record client_env =
  cl_media :: media_env
  cl_lib :: stdlib
  cl_entity_ok :: bool
  cl_get_messages :: "pyval \<Rightarrow> error + tl_message option"
  cl_now :: string
  cl_resolve_error :: "error option"
  cl_offset_date :: "int \<Rightarrow> error option"
  cl_write_format :: "string \<Rightarrow> pydict list \<Rightarrow> error option"
  cl_write_report :: "error option"
  cl_unlink :: "error option"

record export_options =
  opt_chat_id :: int
  opt_chat_title :: string
  opt_batch_size :: int
  opt_download_media :: bool
  opt_resume :: bool
  opt_filters :: pydict
  opt_export_formats :: "string list"
  opt_validation :: validator_config
  opt_media_dir :: string
  opt_days_limit :: "int option"
  opt_config_filters :: pydict
  opt_config_export_formats :: "string list"

record loop_state =
  st_messages :: "pydict list"
  st_total :: nat
  st_batch :: "pydict list"
  st_resume :: resume_store
  st_media :: filesystem
  st_trace :: "effect list"

text \<open>The \<^verbatim>\<open>sender_info\<close> mapping built for each message.\<close>

fun sender_info_of :: "tl_sender option \<Rightarrow> pydict" where
  "sender_info_of None = []"
| "sender_info_of (Some (SenderUser i first_name last_name username)) =
     [(''id'', PInt i), (''type'', PStr ''User''), (''first_name'', first_name),
      (''last_name'', last_name), (''username'', username)]"
| "sender_info_of (Some (SenderChannel i title)) =
     [(''id'', PInt i), (''type'', PStr ''Channel''), (''title'', title)]"
| "sender_info_of (Some (SenderOther i)) = [(''id'', PInt i)]"

definition message_dict_of :: "tl_message \<Rightarrow> pydict" where
  "message_dict_of message =
     dict_set (tl_to_dict message) ''sender_info'' (PDict (sender_info_of (tl_sender message)))"

text \<open>
  \<^verbatim>\<open>_process_batch\<close>.  With media download requested it re-fetches each message by
  id, downloads the attachments (\<^verbatim>\<open>download_batch\<close>; the bounded-concurrency gather
  is run here in task order), pairs messages with results positionally, and attaches
  \<^verbatim>\<open>media_info\<close>; any exception gives the batch back as it then is.
\<close>

fun original_messages :: "client_env \<Rightarrow> pyval list \<Rightarrow> tl_message list" where
  "original_messages env [] = []"
| "original_messages env (i # ids) =
     (case cl_get_messages env i of
        Inr (Some msg) \<Rightarrow>
          if tl_media msg \<noteq> None then msg # original_messages env ids
          else original_messages env ids
      | _ \<Rightarrow> original_messages env ids)"

fun download_batch ::
  "media_env \<Rightarrow> string \<Rightarrow> filesystem \<Rightarrow> tl_message list
     \<Rightarrow> pydict list \<times> filesystem \<times> effect list" where
  "download_batch env dir fs [] = ([], fs, [])"
| "download_batch env dir fs (msg # msgs) =
     (if tl_media msg = None then download_batch env dir fs msgs
      else
        (case download_media env dir fs msg of
           (result, fs', fetched) \<Rightarrow>
             (case download_batch env dir fs' msgs of
                (results, fs'', effects) \<Rightarrow>
                  ((case result of Some d \<Rightarrow> d # results | None \<Rightarrow> results), fs'',
                   (if fetched then [FetchedMedia (tl_id msg)] else []) @ effects))))"

definition lookup_media :: "(int \<times> pydict) list \<Rightarrow> pyval \<Rightarrow> pydict option" where
  "lookup_media media_dict i =
     map_option snd (find (\<lambda>kv. py_eq (PInt (fst kv)) i) (rev media_dict))"

fun attach_media :: "(int \<times> pydict) list \<Rightarrow> pydict list \<Rightarrow> pydict list" where
  "attach_media media_dict [] = []"
| "attach_media media_dict (msg_data # rest) =
     (if \<not> hashable (msg_id msg_data) then msg_data # rest
      else (case lookup_media media_dict (msg_id msg_data) of
              Some media \<Rightarrow> dict_set msg_data ''media_info'' (PDict media)
            | None \<Rightarrow> msg_data) # attach_media media_dict rest)"

definition process_batch ::
  "client_env \<Rightarrow> export_options \<Rightarrow> filesystem \<Rightarrow> pydict list
     \<Rightarrow> pydict list \<times> filesystem \<times> effect list" where
  "process_batch env opts fs batch =
     (if opt_download_media opts \<and> opt_chat_id opts \<noteq> 0 then
        (if list_ex (\<lambda>msg. \<not> dict_has msg ''id'') batch then (batch, fs, [])
         else if \<not> cl_entity_ok env then (batch, fs, [])
         else
           (let originals = original_messages env (map msg_id batch)
            in if originals = [] then (batch, fs, [])
               else
                 (case download_batch (cl_media env) (opt_media_dir opts) fs originals of
                    (media_results, fs', effects) \<Rightarrow>
                      (attach_media (zip (map tl_id originals) media_results) batch,
                       fs', effects))))
      else (batch, fs, []))"

text \<open>
  One batch is committed: processed, appended to the in-memory result, counted, and
  (when resuming is on) the checkpoint is written with the id of the batch's last
  record; a missing id there raises \<^verbatim>\<open>KeyError\<close>.
\<close>

definition commit_batch ::
  "client_env \<Rightarrow> export_options \<Rightarrow> loop_state \<Rightarrow> loop_state \<times> error option" where
  "commit_batch env opts s =
     (case process_batch env opts (st_media s) (st_batch s) of
        (processed, fs', effects) \<Rightarrow>
          (let s1 = s\<lparr>st_messages := st_messages s @ processed,
                      st_total := st_total s + length processed,
                      st_media := fs',
                      st_trace := st_trace s @ effects\<rparr>
           in if opt_resume opts then
                (case map_of (last (st_batch s)) ''id'' of
                   None \<Rightarrow> (s1, Some (KeyError ''id''))
                 | Some last_id \<Rightarrow>
                     (s1\<lparr>st_resume := save_progress (cl_now env) (st_resume s1) (opt_chat_id opts)
                                         last_id (st_total s1)
                                         [(''chat_title'', PStr (opt_chat_title opts))],
                         st_trace := st_trace s1 @
                           [SavedProgress (opt_chat_id opts) last_id (st_total s1)],
                         st_batch := []\<rparr>, None))
              else (s1\<lparr>st_batch := []\<rparr>, None)))"

text \<open>\<^verbatim>\<open>message.id <= resume_point\<close> for the cursor read from the checkpoint file.\<close>

fun int_le :: "int \<Rightarrow> pyval \<Rightarrow> error + bool" where
  "int_le i (PInt c) = Inr (i \<le> c)"
| "int_le i (PBool b) = Inr (i \<le> (if b then 1 else 0))"
| "int_le i _ = Inl TypeError"

definition loop_step ::
  "client_env \<Rightarrow> export_options \<Rightarrow> pyval \<Rightarrow> loop_state \<Rightarrow> pull \<Rightarrow> loop_state \<times> error option" where
  "loop_step env opts resume_point s p =
     (case p of
        Raise e \<Rightarrow> (s, Some e)
      | YieldNone \<Rightarrow> (s, None)
      | Yield message \<Rightarrow>
          (case (if opt_resume opts \<and> truthy resume_point
                 then int_le (tl_id message) resume_point else Inr False) of
             Inl e \<Rightarrow> (s, Some e)
           | Inr True \<Rightarrow> (s, None)
           | Inr False \<Rightarrow>
               (case apply_filters (cl_lib env) (message_dict_of message) (opt_filters opts) of
                  Inl e \<Rightarrow> (s, Some e)
                | Inr False \<Rightarrow> (s, None)
                | Inr True \<Rightarrow>
                    (let s1 = s\<lparr>st_batch := st_batch s @ [message_dict_of message]\<rparr>
                     in if int (length (st_batch s1)) \<ge> opt_batch_size opts
                        then commit_batch env opts s1
                        else (s1, None)))))"

fun download_loop ::
  "client_env \<Rightarrow> export_options \<Rightarrow> pyval \<Rightarrow> loop_state \<Rightarrow> pull list
     \<Rightarrow> loop_state \<times> error option" where
  "download_loop env opts resume_point s [] = (s, None)"
| "download_loop env opts resume_point s (p # ps) =
     (case loop_step env opts resume_point s p of
        (s', Some e) \<Rightarrow> (s', Some e)
      | (s', None) \<Rightarrow> download_loop env opts resume_point s' ps)"

text \<open>
  After the loop the records left in the last, incomplete batch are processed; no
  checkpoint is written for them.
\<close>

definition flush_batch :: "client_env \<Rightarrow> export_options \<Rightarrow> loop_state \<Rightarrow> loop_state" where
  "flush_batch env opts s =
     (if st_batch s = [] then s
      else (case process_batch env opts (st_media s) (st_batch s) of
              (processed, fs', effects) \<Rightarrow>
                s\<lparr>st_messages := st_messages s @ processed,
                  st_total := st_total s + length processed,
                  st_media := fs',
                  st_trace := st_trace s @ effects\<rparr>))"

definition format_handlers :: "string list" where
  "format_handlers = [''json'', ''jsonl'', ''csv'', ''excel'', ''html'', ''xml'', ''markdown'', ''md'']"

text \<open>
  \<^verbatim>\<open>export_multiple_formats\<close>: each recognised format is handed to its writer inside
  \<^verbatim>\<open>try\<close>; a writer that raises is recorded in the result and the next format is
  tried.
\<close>

fun export_multiple_formats :: "client_env \<Rightarrow> pydict list \<Rightarrow> string list \<Rightarrow> effect list" where
  "export_multiple_formats env data [] = []"
| "export_multiple_formats env data (fmt # formats) =
     (if fmt \<in> set format_handlers
      then (case cl_write_format env fmt data of
              None \<Rightarrow> WroteOutput fmt data
            | Some e \<Rightarrow> FailedOutput fmt) # export_multiple_formats env data formats
      else export_multiple_formats env data formats)"

text \<open>
  \<^verbatim>\<open>get_filter_summary\<close> is called for the log line before the loop; only whether it
  raises matters here.  It joins the media types, takes the length of the text patterns
  and of the sender ids, and looks up \<^verbatim>\<open>start\<close> and \<^verbatim>\<open>end\<close> in the date range.
\<close>

fun is_str :: "pyval \<Rightarrow> bool" where
  "is_str (PStr _) = True"
| "is_str _ = False"

fun is_dict :: "pyval \<Rightarrow> bool" where
  "is_dict (PDict _) = True"
| "is_dict _ = False"

definition summary_join :: "pyval \<Rightarrow> error option" where
  "summary_join v =
     (case py_iter v of
        Inl e \<Rightarrow> Some e
      | Inr items \<Rightarrow> if list_all is_str items then None else Some TypeError)"

definition summary_len :: "pyval \<Rightarrow> error option" where
  "summary_len v = (case py_len v of Inl e \<Rightarrow> Some e | Inr n \<Rightarrow> None)"

definition summary_bound :: "string \<Rightarrow> pyval \<Rightarrow> error option" where
  "summary_bound key date_range =
     (case py_contains date_range (PStr key) of
        Inl e \<Rightarrow> Some e
      | Inr present \<Rightarrow> if present \<and> \<not> is_dict date_range then Some TypeError else None)"

definition summary_part :: "pydict \<Rightarrow> string \<Rightarrow> (pyval \<Rightarrow> error option) \<Rightarrow> error option" where
  "summary_part filters_config key part =
     (if dict_has filters_config key then part (dict_get filters_config key PNone) else None)"

fun first_error :: "error option list \<Rightarrow> error option" where
  "first_error [] = None"
| "first_error (Some e # rest) = Some e"
| "first_error (None # rest) = first_error rest"

definition get_filter_summary :: "pydict \<Rightarrow> error option" where
  "get_filter_summary filters_config =
     (if filters_config = [] then None
      else first_error
        [summary_part filters_config ''media_types'' summary_join,
         summary_part filters_config ''text_patterns'' summary_len,
         summary_part filters_config ''date_range''
           (\<lambda>date_range. first_error [summary_bound ''start'' date_range,
                                        summary_bound ''end'' date_range]),
         summary_part filters_config ''sender_ids'' summary_len])"

datatype export_result =
    ErrorResult error
  | ExportResult (res_total_messages: nat) (res_valid_messages: nat) (res_invalid_messages: nat)

definition initial_state :: "resume_store \<Rightarrow> filesystem \<Rightarrow> loop_state" where
  "initial_state store fs =
     \<lparr>st_messages = [], st_total = 0, st_batch = [], st_resume = store, st_media = fs,
      st_trace = []\<rparr>"

text \<open>
  After the loop: the remaining records are processed (without a checkpoint), the whole
  result is validated and, when there is a valid record, the valid set is handed to the
  writer of each recognised format and the validation report is written; then the
  checkpoint is deleted.  The report and the deletion are not guarded: an exception
  there ends the export after the output was written, the checkpoint still in place.
\<close>

definition finish_export ::
  "client_env \<Rightarrow> export_options \<Rightarrow> loop_state \<Rightarrow> loop_state \<times> (error + export_result)" where
  "finish_export env opts s =
     (let s1 = flush_batch env opts s
      in case validate_and_clean_batch (cl_lib env) (opt_validation opts) (st_messages s1) of
           Inl e \<Rightarrow> (s1, Inl e)
         | Inr (valid_messages, invalid_messages) \<Rightarrow>
             (let export_formats = (if opt_export_formats opts \<noteq> [] then opt_export_formats opts
                                    else opt_config_export_formats opts);
                  s2 = (if valid_messages \<noteq> []
                        then s1\<lparr>st_trace := st_trace s1 @
                                 export_multiple_formats env valid_messages export_formats\<rparr>
                        else s1)
              in case (if valid_messages \<noteq> [] then cl_write_report env else None) of
                   Some e \<Rightarrow> (s2, Inl e)
                 | None \<Rightarrow>
                     (let s3 = (if valid_messages \<noteq> []
                                then s2\<lparr>st_trace := st_trace s2 @ [WroteValidationReport]\<rparr>
                                else s2);
                          result = ExportResult (st_total s1) (length valid_messages)
                                     (length invalid_messages)
                      in if opt_resume opts then
                           (case (if st_resume s3 (opt_chat_id opts) \<noteq> None
                                  then cl_unlink env else None) of
                              Some e \<Rightarrow> (s3, Inl e)
                            | None \<Rightarrow>
                                (s3\<lparr>st_resume := mark_completed (st_resume s3) (opt_chat_id opts),
                                    st_trace := st_trace s3 @
                                      [MarkedCompleted (opt_chat_id opts)]\<rparr>, Inr result))
                         else (s3, Inr result))))"

text \<open>
  \<^verbatim>\<open>download_chat\<close>.  A chat that cannot be resolved gives the error result, not an
  exception.  The filters are the ones passed, or the configured ones when those are
  empty; the filter summary and the offset date are computed before the loop and may
  raise.  An exception in the loop ends the export with the state as it then is.
\<close>

definition download_chat ::
  "client_env \<Rightarrow> export_options \<Rightarrow> resume_store \<Rightarrow> filesystem \<Rightarrow> pull list
     \<Rightarrow> loop_state \<times> (error + export_result)" where
  "download_chat env opts store fs pulled =
     (case cl_resolve_error env of
        Some e \<Rightarrow> (initial_state store fs, Inr (ErrorResult e))
      | None \<Rightarrow>
          (let resume_point =
                 (if opt_resume opts then check_resume_point store (opt_chat_id opts) else PNone);
               filter_config = (if opt_filters opts \<noteq> [] then opt_filters opts
                                else opt_config_filters opts);
               opts' = opts\<lparr>opt_filters := filter_config\<rparr>
           in case get_filter_summary filter_config of
                Some e \<Rightarrow> (initial_state store fs, Inl e)
              | None \<Rightarrow>
                  (case (case opt_days_limit opts of
                           None \<Rightarrow> None
                         | Some days \<Rightarrow> if days = 0 then None else cl_offset_date env days) of
                     Some e \<Rightarrow> (initial_state store fs, Inl e)
                   | None \<Rightarrow>
                       (case download_loop env opts' resume_point (initial_state store fs) pulled of
                          (s, Some e) \<Rightarrow> (s, Inl e)
                        | (s, None) \<Rightarrow> finish_export env opts' s))))"

text \<open>A sample client and chat for the concrete runs: no media download, no filters,
  batches of two records.\<close>

definition sample_client :: client_env where
  "sample_client =
     \<lparr>cl_media = sample_env, cl_lib = sample_lib, cl_entity_ok = True,
      cl_get_messages = (\<lambda>i. Inr None), cl_now = ''2025-07-21T00:00:00'',
      cl_resolve_error = None, cl_offset_date = (\<lambda>days. None),
      cl_write_format = (\<lambda>fmt data. None), cl_write_report = None, cl_unlink = None\<rparr>"

definition sample_options :: "int \<Rightarrow> export_options" where
  "sample_options n =
     \<lparr>opt_chat_id = 42, opt_chat_title = ''chat'', opt_batch_size = n,
      opt_download_media = False, opt_resume = True, opt_filters = [],
      opt_export_formats = [''json''], opt_validation = default_validator_config,
      opt_media_dir = ''downloads/media'', opt_days_limit = None, opt_config_filters = [],
      opt_config_export_formats = [''json'']\<rparr>"

definition sample_pull :: "int \<Rightarrow> tl_message" where
  "sample_pull i = Message i (sample_message i ''hello'') None None"

definition checkpoint_at :: "int \<Rightarrow> resume_store" where
  "checkpoint_at c = save_progress ''2025-07-20T00:00:00'' Map.empty 42 (PInt c) (nat c) []"

text \<open>
  An export that is interrupted after its first batch of two records, and the source of
  the run that follows it.
\<close>

definition interrupted_pull :: "pull list" where
  "interrupted_pull = [Yield (sample_pull 1), Yield (sample_pull 2), Raise OtherError]"

definition resumed_pull :: "pull list" where
  "resumed_pull = [Yield (sample_pull 1), Yield (sample_pull 2), Yield (sample_pull 3)]"

text \<open>An environment where the validation report cannot be written.\<close>

definition report_fails_client :: client_env where
  "report_fails_client = sample_client\<lparr>cl_write_report := Some OtherError\<rparr>"

section \<open>The validator on a store of mutable objects\<close>

text \<open>
  Python dictionaries and lists are mutable objects reached through references, and a
  record may be shared between the caller, the valid list and the invalid list.  For
  the question of what \<open>clean_message\<close> and \<open>validate_and_clean_batch\<close> modify, the
  same functions are modelled on an explicit store: a list of objects, an address being
  an index, allocation appending at the end.  A value is immediate or a reference.
\<close>

datatype hval = HNone | HBool bool | HInt int | HStr string | HDatetime pydt | HRef nat

datatype hobj = HDict "(string \<times> hval) list" | HList "hval list"

type_synonym heap = "hobj list"

definition alloc :: "heap \<Rightarrow> hobj \<Rightarrow> heap \<times> nat" where
  "alloc h obj = (h @ [obj], length h)"

definition heap_dict :: "heap \<Rightarrow> nat \<Rightarrow> (string \<times> hval) list option" where
  "heap_dict h a =
     (if a < length h then (case h ! a of HDict d \<Rightarrow> Some d | HList _ \<Rightarrow> None) else None)"

text \<open>Reading a value out of the store, to a given depth of references.\<close>

fun reify :: "nat \<Rightarrow> heap \<Rightarrow> hval \<Rightarrow> pyval" where
  "reify n h HNone = PNone"
| "reify n h (HBool b) = PBool b"
| "reify n h (HInt i) = PInt i"
| "reify n h (HStr s) = PStr s"
| "reify n h (HDatetime dt) = PDatetime dt"
| "reify 0 h (HRef a) = PNone"
| "reify (Suc n) h (HRef a) =
     (if a < length h
      then (case h ! a of
              HDict d \<Rightarrow> PDict (map (\<lambda>kv. (fst kv, reify n h (snd kv))) d)
            | HList xs \<Rightarrow> PList (map (reify n h) xs))
      else PNone)"

text \<open>Truthiness of a stored value: a container is truthy when it is not empty.\<close>

definition htruthy :: "heap \<Rightarrow> hval \<Rightarrow> bool" where
  "htruthy h v = truthy (reify 1 h v)"

fun hdict_set :: "(string \<times> hval) list \<Rightarrow> string \<Rightarrow> hval \<Rightarrow> (string \<times> hval) list" where
  "hdict_set [] k v = [(k, v)]"
| "hdict_set ((k', v') # d) k v = (if k' = k then (k, v) # d else (k', v') # hdict_set d k v)"

text \<open>\<^verbatim>\<open>obj[k] = v\<close> and \<^verbatim>\<open>del obj[k]\<close> on the dictionary at an address: the writes.\<close>

definition store_item :: "heap \<Rightarrow> nat \<Rightarrow> string \<Rightarrow> hval \<Rightarrow> heap" where
  "store_item h a k v =
     (case heap_dict h a of Some d \<Rightarrow> h[a := HDict (hdict_set d k v)] | None \<Rightarrow> h)"

definition delete_item :: "heap \<Rightarrow> nat \<Rightarrow> string \<Rightarrow> heap" where
  "delete_item h a k =
     (case heap_dict h a of
        Some d \<Rightarrow> h[a := HDict (filter (\<lambda>kv. fst kv \<noteq> k) d)]
      | None \<Rightarrow> h)"

definition load_item :: "heap \<Rightarrow> nat \<Rightarrow> string \<Rightarrow> hval option" where
  "load_item h a k = (case heap_dict h a of Some d \<Rightarrow> map_of d k | None \<Rightarrow> None)"

text \<open>
  \<open>clean_message\<close> on the store.  \<^verbatim>\<open>message.copy()\<close> allocates a new dictionary
  with the same items (nested objects are shared); every later assignment and deletion
  goes to that copy; the cleaned sender information is a new dictionary built by the
  comprehension.  A message that is not a dictionary raises.
\<close>

definition clean_text_step :: "stdlib \<Rightarrow> validator_config \<Rightarrow> heap \<Rightarrow> nat \<Rightarrow> heap" where
  "clean_text_step lib cfg h cleaned =
     (case load_item h cleaned ''message'' of
        Some (HStr text) \<Rightarrow> store_item h cleaned ''message'' (HStr (clean_text lib cfg text))
      | _ \<Rightarrow> h)"

definition clean_date_step :: "stdlib \<Rightarrow> heap \<Rightarrow> nat \<Rightarrow> heap" where
  "clean_date_step lib h cleaned =
     (case load_item h cleaned ''date'' of
        Some (HStr date_str) \<Rightarrow>
          (case fromisoformat lib (replace_Z date_str) of
             Some dt \<Rightarrow> store_item h cleaned ''date'' (HStr (isoformat lib dt))
           | None \<Rightarrow> h)
      | _ \<Rightarrow> h)"

definition clean_sender_step :: "heap \<Rightarrow> nat \<Rightarrow> heap" where
  "clean_sender_step h cleaned =
     (case load_item h cleaned ''sender_info'' of
        Some (HRef s) \<Rightarrow>
          (case heap_dict h s of
             Some sender_info \<Rightarrow>
               (case alloc h (HDict (filter (\<lambda>kv. snd kv \<noteq> HNone) sender_info)) of
                  (h', fresh) \<Rightarrow> store_item h' cleaned ''sender_info'' (HRef fresh))
           | None \<Rightarrow> h)
      | _ \<Rightarrow> h)"

definition clean_media_step :: "heap \<Rightarrow> nat \<Rightarrow> string \<Rightarrow> heap" where
  "clean_media_step h cleaned media_key =
     (case load_item h cleaned media_key of
        Some v \<Rightarrow> if \<not> htruthy h v then delete_item h cleaned media_key else h
      | None \<Rightarrow> h)"

definition clean_message_h ::
  "stdlib \<Rightarrow> validator_config \<Rightarrow> heap \<Rightarrow> nat \<Rightarrow> error + (heap \<times> nat)" where
  "clean_message_h lib cfg h message =
     (case heap_dict h message of
        None \<Rightarrow> Inl AttributeError
      | Some items \<Rightarrow>
          (case alloc h (HDict items) of
             (h0, cleaned) \<Rightarrow>
               (let h1 = clean_text_step lib cfg h0 cleaned;
                    h2 = clean_date_step lib h1 cleaned;
                    h3 = clean_sender_step h2 cleaned;
                    h4 = foldl (\<lambda>hh media_key. clean_media_step hh cleaned media_key) h3
                           [''photo'', ''video'', ''audio'', ''document'', ''sticker'']
                in Inr (h4, cleaned))))"

text \<open>
  \<open>validate_message\<close> only reads: it is the validation above, applied to the record
  as read from the store (three levels of references cover every value it inspects).
  A message that is not a dictionary fails validation through the caught exception.
\<close>

definition validate_message_h ::
  "stdlib \<Rightarrow> validator_config \<Rightarrow> heap \<Rightarrow> hval \<Rightarrow> bool \<times> reason option" where
  "validate_message_h lib cfg h message =
     (case reify 3 h message of
        PDict d \<Rightarrow> validate_message lib cfg d
      | _ \<Rightarrow> (False, Some (ValidationError TypeError)))"

text \<open>
  \<open>validate_and_clean_batch\<close> on the store: the valid list holds the addresses of the
  cleaned copies; each invalid entry is a new dictionary that refers to the original
  record (its reason is kept beside it).  The duplicate removal reads the ids of the
  cleaned copies.
\<close>

fun validate_loop_h ::
  "stdlib \<Rightarrow> validator_config \<Rightarrow> heap \<Rightarrow> hval list
     \<Rightarrow> heap \<times> (error + (nat list \<times> (nat \<times> reason option) list))" where
  "validate_loop_h lib cfg h [] = (h, Inr ([], []))"
| "validate_loop_h lib cfg h (message # rest) =
     (case validate_message_h lib cfg h message of
        (True, err) \<Rightarrow>
          (case message of
             HRef a \<Rightarrow>
               (case clean_message_h lib cfg h a of
                  Inl e \<Rightarrow> (h, Inl e)
                | Inr (h', cleaned) \<Rightarrow>
                    (case validate_loop_h lib cfg h' rest of
                       (h'', Inl e) \<Rightarrow> (h'', Inl e)
                     | (h'', Inr (valid, invalid)) \<Rightarrow> (h'', Inr (cleaned # valid, invalid))))
           | _ \<Rightarrow> (h, Inl AttributeError))
      | (False, err) \<Rightarrow>
          (case alloc h (HDict [(''message'', message)]) of
             (h', entry) \<Rightarrow>
               (case validate_loop_h lib cfg h' rest of
                  (h'', Inl e) \<Rightarrow> (h'', Inl e)
                | (h'', Inr (valid, invalid)) \<Rightarrow> (h'', Inr (valid, (entry, err) # invalid)))))"

fun dedup_loop_h :: "heap \<Rightarrow> pyval list \<Rightarrow> nat list \<Rightarrow> error + nat list" where
  "dedup_loop_h h seen_ids [] = Inr []"
| "dedup_loop_h h seen_ids (message # rest) =
     (let message_id = (case load_item h message ''id'' of
                          Some v \<Rightarrow> reify 2 h v | None \<Rightarrow> PNone)
      in if truthy message_id then
           (if \<not> hashable message_id then Inl TypeError
            else if \<not> list_ex (py_eq message_id) seen_ids then
              (case dedup_loop_h h (message_id # seen_ids) rest of
                 Inl e \<Rightarrow> Inl e
               | Inr unique_messages \<Rightarrow> Inr (message # unique_messages))
            else dedup_loop_h h seen_ids rest)
         else
           (case dedup_loop_h h seen_ids rest of
              Inl e \<Rightarrow> Inl e
            | Inr unique_messages \<Rightarrow> Inr (message # unique_messages)))"

definition validate_and_clean_batch_h ::
  "stdlib \<Rightarrow> validator_config \<Rightarrow> heap \<Rightarrow> hval list
     \<Rightarrow> heap \<times> (error + (nat list \<times> (nat \<times> reason option) list))" where
  "validate_and_clean_batch_h lib cfg h batch =
     (case validate_loop_h lib cfg h batch of
        (h', Inl e) \<Rightarrow> (h', Inl e)
      | (h', Inr (valid, invalid)) \<Rightarrow>
          (if \<not> remove_duplicates cfg then (h', Inr (valid, invalid))
           else (case dedup_loop_h h' [] valid of
                   Inl e \<Rightarrow> (h', Inl e)
                 | Inr unique_messages \<Rightarrow> (h', Inr (unique_messages, invalid)))))"

text \<open>A store is closed when every reference in it points into it.\<close>

fun val_ok :: "nat \<Rightarrow> hval \<Rightarrow> bool" where
  "val_ok n (HRef a) = (a < n)"
| "val_ok n _ = True"

fun obj_ok :: "nat \<Rightarrow> hobj \<Rightarrow> bool" where
  "obj_ok n (HDict d) = list_all (\<lambda>kv. val_ok n (snd kv)) d"
| "obj_ok n (HList xs) = list_all (val_ok n) xs"

definition heap_closed :: "heap \<Rightarrow> bool" where
  "heap_closed h = list_all (obj_ok (length h)) h"

text \<open>A store with one record that shares its sender information with the caller.\<close>

definition sample_heap :: heap where
  "sample_heap =
     [HDict [(''id'', HInt 1), (''date'', HStr ''2025-07-20''), (''message'', HStr '' a  b ''),
             (''sender_info'', HRef 1), (''photo'', HNone)],
      HDict [(''id'', HInt 9), (''username'', HNone)]]"

section \<open>JSON export (export\_manager.py, stream\_processor.py)\<close>

text \<open>
  \<^verbatim>\<open>json.dumps\<close> with \<^verbatim>\<open>ensure_ascii=False\<close>: a string is quoted, with the quote, the
  backslash and the control characters escaped.  The layout is a parameter: the text
  put at each line break for a nesting level (nothing for the compact separators, a
  newline and two spaces per level for \<^verbatim>\<open>indent=2\<close>) and the key separator.  A
  datetime goes through the \<^verbatim>\<open>default\<close> function when there is one.
\<close>

definition hex_digit :: "nat \<Rightarrow> char" where
  "hex_digit d = ''0123456789abcdef'' ! (d mod 16)"

definition escape_char :: "char \<Rightarrow> string" where
  "escape_char c =
     (if c = CHR 0x22 then [CHR 0x5C, CHR 0x22]
      else if c = CHR 0x5C then [CHR 0x5C, CHR 0x5C]
      else if c = CHR 0x0A then [CHR 0x5C, CHR ''n'']
      else if c = CHR 0x0D then [CHR 0x5C, CHR ''r'']
      else if c = CHR 0x09 then [CHR 0x5C, CHR ''t'']
      else if c = CHR 0x08 then [CHR 0x5C, CHR ''b'']
      else if c = CHR 0x0C then [CHR 0x5C, CHR ''f'']
      else if (of_char c :: nat) < 32
      then [CHR 0x5C, CHR ''u'', CHR ''0'', CHR ''0'',
            hex_digit ((of_char c :: nat) div 16), hex_digit ((of_char c :: nat) mod 16)]
      else [c])"

definition encode_string :: "string \<Rightarrow> string" where
  "encode_string s = CHR 0x22 # concat (map escape_char s) @ [CHR 0x22]"

fun json_text :: "(pydt \<Rightarrow> string) \<Rightarrow> (nat \<Rightarrow> string) \<Rightarrow> string \<Rightarrow> nat \<Rightarrow> pyval \<Rightarrow> string"
  and json_items :: "(pydt \<Rightarrow> string) \<Rightarrow> (nat \<Rightarrow> string) \<Rightarrow> string \<Rightarrow> nat \<Rightarrow> pyval list \<Rightarrow> string"
  and json_members :: "(pydt \<Rightarrow> string) \<Rightarrow> (nat \<Rightarrow> string) \<Rightarrow> string \<Rightarrow> nat \<Rightarrow> pydict \<Rightarrow> string" where
  "json_text dflt nl ks lvl PNone = ''null''"
| "json_text dflt nl ks lvl (PBool b) = (if b then ''true'' else ''false'')"
| "json_text dflt nl ks lvl (PInt i) = str_int i"
| "json_text dflt nl ks lvl (PStr s) = encode_string s"
| "json_text dflt nl ks lvl (PDatetime dt) = encode_string (dflt dt)"
| "json_text dflt nl ks lvl (PList []) = ''[]''"
| "json_text dflt nl ks lvl (PList (x # xs)) =
     ''['' @ nl (Suc lvl) @ json_text dflt nl ks (Suc lvl) x @ json_items dflt nl ks (Suc lvl) xs
       @ nl lvl @ '']''"
| "json_text dflt nl ks lvl (PDict []) = ''{}''"
| "json_text dflt nl ks lvl (PDict ((k, v) # d)) =
     ''{'' @ nl (Suc lvl) @ encode_string k @ ks @ json_text dflt nl ks (Suc lvl) v
       @ json_members dflt nl ks (Suc lvl) d @ nl lvl @ ''}''"
| "json_items dflt nl ks lvl [] = []"
| "json_items dflt nl ks lvl (x # xs) =
     '','' @ nl lvl @ json_text dflt nl ks lvl x @ json_items dflt nl ks lvl xs"
| "json_members dflt nl ks lvl [] = []"
| "json_members dflt nl ks lvl ((k, v) # d) =
     '','' @ nl lvl @ encode_string k @ ks @ json_text dflt nl ks lvl v
       @ json_members dflt nl ks lvl d"

text \<open>Without a \<^verbatim>\<open>default\<close> function a datetime raises \<^verbatim>\<open>TypeError\<close>.\<close>

fun serializable :: "pyval \<Rightarrow> bool"
  and serializable_list :: "pyval list \<Rightarrow> bool"
  and serializable_dict :: "pydict \<Rightarrow> bool" where
  "serializable (PDatetime _) = False"
| "serializable (PList xs) = serializable_list xs"
| "serializable (PDict d) = serializable_dict d"
| "serializable _ = True"
| "serializable_list [] = True"
| "serializable_list (x # xs) = (serializable x \<and> serializable_list xs)"
| "serializable_dict [] = True"
| "serializable_dict ((k, v) # d) = (serializable v \<and> serializable_dict d)"

definition compact_nl :: "nat \<Rightarrow> string" where
  "compact_nl lvl = []"

definition indent_nl :: "nat \<Rightarrow> string" where
  "indent_nl lvl = CHR 0x0A # replicate (2 * lvl) CHR '' ''"

definition dumps_compact :: "pyval \<Rightarrow> error + string" where
  "dumps_compact v =
     (if serializable v then Inr (json_text (\<lambda>dt. []) compact_nl '':'' 0 v) else Inl TypeError)"

text \<open>\<open>export_json\<close>: the whole list, \<^verbatim>\<open>indent=2\<close>, datetimes through
  \<^verbatim>\<open>_json_serializer\<close>.\<close>

definition export_json :: "stdlib \<Rightarrow> pydict list \<Rightarrow> string" where
  "export_json lib data = json_text (isoformat lib) indent_nl '': '' 0 (PList (map PDict data))"

text \<open>
  \<open>process_messages_stream\<close>: the opening bracket, each full batch written by
  \<open>_write_batch\<close> (a comma and newline before every record but the very first), the
  remaining records, the closing bracket.  The result is the file text with the
  counters \<^verbatim>\<open>total_messages\<close> and \<^verbatim>\<open>chunks_written\<close>.
\<close>

fun write_batch :: "string \<Rightarrow> bool \<Rightarrow> pydict list \<Rightarrow> error + string" where
  "write_batch file first_record [] = Inr file"
| "write_batch file first_record (message # rest) =
     (case dumps_compact (PDict message) of
        Inl e \<Rightarrow> Inl e
      | Inr json_str \<Rightarrow>
          write_batch ((if first_record then file else file @ [CHR '','', CHR 0x0A])
                         @ ''  '' @ json_str) False rest)"

fun stream_loop ::
  "int \<Rightarrow> string \<Rightarrow> bool \<Rightarrow> pydict list \<Rightarrow> nat \<Rightarrow> nat \<Rightarrow> pydict list
     \<Rightarrow> error + (string \<times> bool \<times> pydict list \<times> nat \<times> nat)" where
  "stream_loop batch_size file first_message batch count chunks [] =
     Inr (file, first_message, batch, count, chunks)"
| "stream_loop batch_size file first_message batch count chunks (message # rest) =
     (if int (length (batch @ [message])) \<ge> batch_size
      then (case write_batch file first_message (batch @ [message]) of
              Inl e \<Rightarrow> Inl e
            | Inr file' \<Rightarrow> stream_loop batch_size file' False [] (Suc count) (Suc chunks) rest)
      else stream_loop batch_size file first_message (batch @ [message]) (Suc count) chunks rest)"

definition process_messages_stream :: "int \<Rightarrow> pydict list \<Rightarrow> error + (string \<times> nat \<times> nat)" where
  "process_messages_stream batch_size messages_generator =
     (case stream_loop batch_size [CHR ''['', CHR 0x0A] True [] 0 0 messages_generator of
        Inl e \<Rightarrow> Inl e
      | Inr (file, first_message, batch, count, chunks) \<Rightarrow>
          (case (if batch \<noteq> [] then write_batch file first_message batch else Inr file) of
             Inl e \<Rightarrow> Inl e
           | Inr file' \<Rightarrow> Inr (file' @ [CHR 0x0A, CHR '']''], count, chunks)))"

section \<open>Reading JSON back\<close>

text \<open>
  The reader that re-reads an export is \<^verbatim>\<open>json.loads\<close>, modelled here for the values
  of this development (no floating point): a scanner from characters to tokens, and a
  parser from tokens to a value that keeps the order of keys and lets a repeated key
  overwrite.  Both run once over their input with an explicit state.
\<close>

datatype token =
    TOpenList | TCloseList | TOpenDict | TCloseDict | TComma | TColon
  | TNull | TBool bool | TNumber int | TText string

datatype lex_mode =
    Idle
  | NumStart
  | NumZero
  | NumDigits bool nat
  | InString string
  | InEscape string
  | InUnicode string "nat list"
  | InWord string

definition is_digit :: "char \<Rightarrow> bool" where
  "is_digit c = (48 \<le> (of_char c :: nat) \<and> (of_char c :: nat) \<le> 57)"

definition digit_val :: "char \<Rightarrow> nat" where
  "digit_val c = (of_char c :: nat) - 48"

definition hex_val :: "char \<Rightarrow> nat option" where
  "hex_val c =
     (let n = (of_char c :: nat)
      in if 48 \<le> n \<and> n \<le> 57 then Some (n - 48)
         else if 97 \<le> n \<and> n \<le> 102 then Some (n - 87)
         else if 65 \<le> n \<and> n \<le> 70 then Some (n - 55)
         else None)"

definition number_token :: "bool \<Rightarrow> nat \<Rightarrow> token" where
  "number_token negative n = TNumber (if negative then - int n else int n)"

definition is_json_space :: "char \<Rightarrow> bool" where
  "is_json_space c = (c = CHR '' '' \<or> c = CHR 0x0A \<or> c = CHR 0x0D \<or> c = CHR 0x09)"

definition lex_idle :: "char \<Rightarrow> (token list \<times> lex_mode) option" where
  "lex_idle c =
     (if is_json_space c then Some ([], Idle)
      else if c = CHR ''['' then Some ([TOpenList], Idle)
      else if c = CHR '']'' then Some ([TCloseList], Idle)
      else if c = CHR ''{'' then Some ([TOpenDict], Idle)
      else if c = CHR ''}'' then Some ([TCloseDict], Idle)
      else if c = CHR '','' then Some ([TComma], Idle)
      else if c = CHR '':'' then Some ([TColon], Idle)
      else if c = CHR 0x22 then Some ([], InString [])
      else if c = CHR ''-'' then Some ([], NumStart)
      else if c = CHR ''0'' then Some ([], NumZero)
      else if is_digit c then Some ([], NumDigits False (digit_val c))
      else if c = CHR ''n'' \<or> c = CHR ''t'' \<or> c = CHR ''f'' then Some ([], InWord [c])
      else None)"

definition after_number :: "token \<Rightarrow> char \<Rightarrow> (token list \<times> lex_mode) option" where
  "after_number tok c =
     (if is_digit c \<or> c = CHR ''.'' \<or> c = CHR ''e'' \<or> c = CHR ''E'' then None
      else (case lex_idle c of None \<Rightarrow> None | Some (ts, m) \<Rightarrow> Some (tok # ts, m)))"

definition lex_escape :: "string \<Rightarrow> char \<Rightarrow> (token list \<times> lex_mode) option" where
  "lex_escape acc c =
     (if c = CHR 0x22 then Some ([], InString (acc @ [CHR 0x22]))
      else if c = CHR 0x5C then Some ([], InString (acc @ [CHR 0x5C]))
      else if c = CHR ''/'' then Some ([], InString (acc @ [CHR ''/'']))
      else if c = CHR ''b'' then Some ([], InString (acc @ [CHR 0x08]))
      else if c = CHR ''f'' then Some ([], InString (acc @ [CHR 0x0C]))
      else if c = CHR ''n'' then Some ([], InString (acc @ [CHR 0x0A]))
      else if c = CHR ''r'' then Some ([], InString (acc @ [CHR 0x0D]))
      else if c = CHR ''t'' then Some ([], InString (acc @ [CHR 0x09]))
      else if c = CHR ''u'' then Some ([], InUnicode acc [])
      else None)"

definition lex_word :: "string \<Rightarrow> (token list \<times> lex_mode) option" where
  "lex_word w =
     (if w = ''null'' then Some ([TNull], Idle)
      else if w = ''true'' then Some ([TBool True], Idle)
      else if w = ''false'' then Some ([TBool False], Idle)
      else if w \<in> set [''n'', ''nu'', ''nul'', ''t'', ''tr'', ''tru'', ''f'', ''fa'', ''fal'', ''fals'']
      then Some ([], InWord w)
      else None)"

fun lex_step :: "lex_mode \<Rightarrow> char \<Rightarrow> (token list \<times> lex_mode) option" where
  "lex_step Idle c = lex_idle c"
| "lex_step NumStart c =
     (if c = CHR ''0'' then Some ([], NumZero)
      else if is_digit c then Some ([], NumDigits True (digit_val c))
      else None)"
| "lex_step NumZero c = after_number (TNumber 0) c"
| "lex_step (NumDigits negative n) c =
     (if is_digit c then Some ([], NumDigits negative (10 * n + digit_val c))
      else after_number (number_token negative n) c)"
| "lex_step (InString acc) c =
     (if c = CHR 0x22 then Some ([TText acc], Idle)
      else if c = CHR 0x5C then Some ([], InEscape acc)
      else if (of_char c :: nat) < 32 then None
      else Some ([], InString (acc @ [c])))"
| "lex_step (InEscape acc) c = lex_escape acc c"
| "lex_step (InUnicode acc ds) c =
     (case hex_val c of
        None \<Rightarrow> None
      | Some d \<Rightarrow>
          if length ds < 3 then Some ([], InUnicode acc (ds @ [d]))
          else (let n = foldl (\<lambda>a x. 16 * a + x) 0 (ds @ [d])
                in if n < 256 then Some ([], InString (acc @ [char_of n])) else None))"
| "lex_step (InWord w) c = lex_word (w @ [c])"

fun lex_end :: "lex_mode \<Rightarrow> token list option" where
  "lex_end Idle = Some []"
| "lex_end NumZero = Some [TNumber 0]"
| "lex_end (NumDigits negative n) = Some [number_token negative n]"
| "lex_end _ = None"

fun lex_from :: "lex_mode \<Rightarrow> string \<Rightarrow> token list option" where
  "lex_from m [] = lex_end m"
| "lex_from m (c # cs) =
     (case lex_step m c of
        None \<Rightarrow> None
      | Some (ts, m') \<Rightarrow>
          (case lex_from m' cs of None \<Rightarrow> None | Some rest \<Rightarrow> Some (ts @ rest)))"

text \<open>The parser keeps a stack of the containers being read and what may come next.\<close>

datatype frame = ListFrame "pyval list" | DictFrame pydict "string option"

datatype expect = EValue | EValueOrClose | EKeyOrClose | EKey | EColon | ECommaOrClose | EDone

type_synonym parser_state = "frame list \<times> expect \<times> pyval option"

fun deliver :: "pyval \<Rightarrow> frame list \<Rightarrow> parser_state option" where
  "deliver v [] = Some ([], EDone, Some v)"
| "deliver v (ListFrame xs # stack) = Some (ListFrame (xs @ [v]) # stack, ECommaOrClose, None)"
| "deliver v (DictFrame d (Some k) # stack) =
     Some (DictFrame (dict_set d k v) None # stack, ECommaOrClose, None)"
| "deliver v (DictFrame d None # stack) = None"

fun scalar_of :: "token \<Rightarrow> pyval option" where
  "scalar_of TNull = Some PNone"
| "scalar_of (TBool b) = Some (PBool b)"
| "scalar_of (TNumber i) = Some (PInt i)"
| "scalar_of (TText s) = Some (PStr s)"
| "scalar_of _ = None"

definition parse_value_token :: "frame list \<Rightarrow> token \<Rightarrow> parser_state option" where
  "parse_value_token stack t =
     (case scalar_of t of
        Some v \<Rightarrow> deliver v stack
      | None \<Rightarrow>
          (if t = TOpenList then Some (ListFrame [] # stack, EValueOrClose, None)
           else if t = TOpenDict then Some (DictFrame [] None # stack, EKeyOrClose, None)
           else None))"

definition close_list :: "frame list \<Rightarrow> parser_state option" where
  "close_list stack =
     (case stack of ListFrame xs # rest \<Rightarrow> deliver (PList xs) rest | _ \<Rightarrow> None)"

definition close_dict :: "frame list \<Rightarrow> parser_state option" where
  "close_dict stack =
     (case stack of DictFrame d None # rest \<Rightarrow> deliver (PDict d) rest | _ \<Rightarrow> None)"

definition parse_key :: "frame list \<Rightarrow> token \<Rightarrow> parser_state option" where
  "parse_key stack t =
     (case (t, stack) of
        (TText k, DictFrame d None # rest) \<Rightarrow> Some (DictFrame d (Some k) # rest, EColon, None)
      | _ \<Rightarrow> None)"

fun parse_step :: "parser_state \<Rightarrow> token \<Rightarrow> parser_state option" where
  "parse_step (stack, EValue, r) t = parse_value_token stack t"
| "parse_step (stack, EValueOrClose, r) t =
     (if t = TCloseList then close_list stack else parse_value_token stack t)"
| "parse_step (stack, EKeyOrClose, r) t =
     (if t = TCloseDict then close_dict stack else parse_key stack t)"
| "parse_step (stack, EKey, r) t = parse_key stack t"
| "parse_step (stack, EColon, r) t = (if t = TColon then Some (stack, EValue, None) else None)"
| "parse_step (stack, ECommaOrClose, r) t =
     (if t = TComma then
        (case stack of
           ListFrame xs # rest \<Rightarrow> Some (stack, EValue, None)
         | DictFrame d None # rest \<Rightarrow> Some (stack, EKey, None)
         | _ \<Rightarrow> None)
      else if t = TCloseList then close_list stack
      else if t = TCloseDict then close_dict stack
      else None)"
| "parse_step (stack, EDone, r) t = None"

fun parse_from :: "parser_state \<Rightarrow> token list \<Rightarrow> parser_state option" where
  "parse_from st [] = Some st"
| "parse_from st (t # ts) =
     (case parse_step st t of None \<Rightarrow> None | Some st' \<Rightarrow> parse_from st' ts)"

definition json_loads :: "string \<Rightarrow> pyval option" where
  "json_loads s =
     (case lex_from Idle s of
        None \<Rightarrow> None
      | Some ts \<Rightarrow>
          (case parse_from ([], EValue, None) ts of
             Some ([], EDone, Some v) \<Rightarrow> Some v
           | _ \<Rightarrow> None))"

text \<open>
  A value is JSON-representable when it holds no datetime and the keys of each
  dictionary are distinct (as they are in a Python dictionary).
\<close>

fun json_value :: "pyval \<Rightarrow> bool"
  and json_values :: "pyval list \<Rightarrow> bool"
  and json_dict :: "pydict \<Rightarrow> bool" where
  "json_value (PDatetime _) = False"
| "json_value (PList xs) = json_values xs"
| "json_value (PDict d) = (distinct (map fst d) \<and> json_dict d)"
| "json_value _ = True"
| "json_values [] = True"
| "json_values (x # xs) = (json_value x \<and> json_values xs)"
| "json_dict [] = True"
| "json_dict ((k, v) # d) = (json_value v \<and> json_dict d)"

text \<open>The tokens of a JSON-representable value.\<close>

fun tokens_of :: "pyval \<Rightarrow> token list"
  and tokens_items :: "pyval list \<Rightarrow> token list"
  and tokens_members :: "pydict \<Rightarrow> token list" where
  "tokens_of PNone = [TNull]"
| "tokens_of (PBool b) = [TBool b]"
| "tokens_of (PInt i) = [TNumber i]"
| "tokens_of (PStr s) = [TText s]"
| "tokens_of (PDatetime dt) = []"
| "tokens_of (PList []) = [TOpenList, TCloseList]"
| "tokens_of (PList (x # xs)) = TOpenList # tokens_of x @ tokens_items xs @ [TCloseList]"
| "tokens_of (PDict []) = [TOpenDict, TCloseDict]"
| "tokens_of (PDict ((k, v) # d)) =
     TOpenDict # TText k # TColon # tokens_of v @ tokens_members d @ [TCloseDict]"
| "tokens_items [] = []"
| "tokens_items (x # xs) = TComma # tokens_of x @ tokens_items xs"
| "tokens_members [] = []"
| "tokens_members ((k, v) # d) = TComma # TText k # TColon # tokens_of v @ tokens_members d"

text \<open>Two records for the concrete round trips.\<close>

definition roundtrip_records :: "pydict list" where
  "roundtrip_records =
     [[(''id'', PInt 1), (''message'', PStr ''hi''), (''sender_info'', PDict [(''id'', PInt 9)])],
      [(''id'', PInt 2), (''message'', PStr ''ok''), (''tags'', PList [PBool True, PNone])]]"

text \<open>The scanner run over a piece of text: the tokens it emits and the mode it ends in.\<close>

fun lex_run :: "lex_mode \<Rightarrow> string \<Rightarrow> (token list \<times> lex_mode) option" where
  "lex_run m [] = Some ([], m)"
| "lex_run m (c # cs) =
     (case lex_step m c of
        None \<Rightarrow> None
      | Some (ts, m') \<Rightarrow>
          (case lex_run m' cs of None \<Rightarrow> None | Some (ts', m'') \<Rightarrow> Some (ts @ ts', m'')))"

text \<open>What may follow a number: a comma, a closing bracket or brace, or white space.\<close>

definition delim :: "char \<Rightarrow> bool" where
  "delim c = (c = CHR '','' \<or> c = CHR '']'' \<or> c = CHR ''}'' \<or> is_json_space c)"

definition starts_delim :: "string \<Rightarrow> bool" where
  "starts_delim s = (case s of [] \<Rightarrow> False | c # _ \<Rightarrow> delim c)"

text \<open>A parser stack is ready for a value unless its top dictionary still waits for a key.\<close>

fun ready :: "frame list \<Rightarrow> bool" where
  "ready (DictFrame d None # stack) = False"
| "ready _ = True"

section \<open>Verified properties\<close>

subsection \<open>Attachment naming\<close>


lemma concat_read_file_chunks: "0 < n \<Longrightarrow> concat (read_file_chunks n s) = s"
proof (induction n s rule: read_file_chunks.induct)
  case (1 n s)
  show ?case
  proof (cases "take n s = []")
    case True
    with 1(2) have "s = []" by simp
    with True show ?thesis by (subst read_file_chunks.simps) simp
  next
    case False
    with 1 have "concat (read_file_chunks n (drop n s)) = drop n s" by simp
    with False show ?thesis by (subst read_file_chunks.simps) simp
  qed
qed

lemma calculate_file_hash_eq: "calculate_file_hash md5 content = md5 content"
  by (simp add: calculate_file_hash_def concat_read_file_chunks)

lemma str_nat_7: "str_int 7 = ''7''"
  by (simp add: str_int_def digit_char_def)

lemma py_lower_txt: "py_lower ''txt'' = ''txt''"
  by code_simp

lemma sample_target:
  "target_path sample_env ''downloads/media'' sample_document_message = Some ''downloads/media/documents/7.pdf''"
  by (simp add: target_path_def sample_env_def sample_document_message_def extract_media_info_def
      classify_document_def get_file_extension_from_mime_def sample_guess_def subdirs_def
      generate_filename_def str_nat_7)

lemma spec_ext_sample: "spec_resolved_extension None (Some ''report.txt'') (Some ''.pdf'') ''document'' = ''.txt''"
  by (simp add: spec_resolved_extension_def rsplit_dot_last_def py_lower_txt)

text \<open>
  Claim C3, as stated, fails for the resolver as a whole: for a document whose declared
  filename is \<^verbatim>\<open>report.txt\<close> and whose MIME type is \<^verbatim>\<open>application/pdf\<close>,
  the claimed order (original filename's extension before the MIME-derived one) gives
  \<^verbatim>\<open>7.txt\<close>, while the code names the file \<^verbatim>\<open>7.pdf\<close>.
\<close>

theorem attachment_extension_order_counterexample:
  "target_path sample_env ''downloads/media'' sample_document_message
     = Some ''downloads/media/documents/7.pdf''
   \<and> ''downloads/media/documents/'' @ str_int 7 @
       spec_resolved_extension None (Some ''report.txt'') (Some ''.pdf'') ''document''
     = ''downloads/media/documents/7.txt''"
  by (simp add: sample_target spec_ext_sample str_nat_7)

lemma generate_filename_explicit:
  "e \<noteq> [] \<Longrightarrow> generate_filename t f (Some e) n = str_int n @ e"
  by (simp add: generate_filename_def)

lemma generate_filename_original:
  "e = None \<or> e = Some [] \<Longrightarrow> CHR ''.'' \<in> set y \<Longrightarrow>
   generate_filename t (Some y) e n = str_int n @ CHR ''.'' # py_lower (rsplit_dot_last y)"
  by (cases y) (auto simp: generate_filename_def)

lemma generate_filename_default:
  "e = None \<or> e = Some [] \<Longrightarrow> f = None \<or> (\<exists>y. f = Some y \<and> CHR ''.'' \<notin> set y) \<Longrightarrow>
   generate_filename t f e n = str_int n @ get_default_extension t"
  by (auto simp: generate_filename_def)

lemma mime_ext_nonempty: "get_file_extension_from_mime g m \<noteq> []"
  by (simp add: get_file_extension_from_mime_def split: option.splits)

lemma classify_document_subdir: "\<exists>d. subdirs dir (classify_document mime attrs) = Some d"
  by (simp add: classify_document_def subdirs_def)

lemma document_target:
  "\<exists>d. subdirs dir (classify_document (doc_mime_type doc) (doc_attributes doc)) = Some d \<and>
    target_path env dir (Message n d0 sender (Some (MediaDocument (Some doc))))
     = Some (d @ ''/'' @ str_int n @ get_file_extension_from_mime (guess_extension env) (doc_mime_type doc))"
  using classify_document_subdir[of dir "doc_mime_type doc" "doc_attributes doc"]
  by (auto simp: target_path_def extract_media_info_def Let_def generate_filename_explicit mime_ext_nonempty)

lemma rsplit_dot_last_append:
  "CHR ''.'' \<notin> set x \<Longrightarrow> rsplit_dot_last (b @ CHR ''.'' # x) = x"
proof -
  assume nodot: "CHR ''.'' \<notin> set x"
  have "takeWhile (\<lambda>c. c \<noteq> CHR ''.'') (rev x @ CHR ''.'' # rev b)
          = rev x @ takeWhile (\<lambda>c. c \<noteq> CHR ''.'') (CHR ''.'' # rev b)"
    by (rule takeWhile_append2) (use nodot in auto)
  then show ?thesis by (simp add: rsplit_dot_last_def)
qed


lemma default_table:
  "map get_default_extension [''photo'', ''video'', ''audio'', ''voice'', ''sticker'', ''document'']
     = [''.jpg'', ''.mp4'', ''.mp3'', ''.ogg'', ''.webp'', ''.bin'']"
  by (simp add: get_default_extension_def)

text \<open>
  Claim C3, amended.  The generated name is \<open>str(N)\<close> followed by: the extension
  argument when it is non-empty; otherwise a dot and the lower-cased text after the last
  dot of the original filename, when that filename contains a dot; otherwise the
  per-kind default (photo .jpg, video .mp4, audio .mp3, voice .ogg, sticker .webp,
  document .bin).  For a document the resolver passes the MIME-derived extension
  (\<^verbatim>\<open>.bin\<close> when the MIME type is unknown) as the extension argument, so it takes
  precedence over the original filename.  The name depends on the original filename
  only through the text after its last dot.
\<close>

theorem generate_filename_resolution:
  "(e \<noteq> [] \<longrightarrow> generate_filename t f (Some e) n = str_int n @ e)
   \<and> (CHR ''.'' \<in> set y \<longrightarrow>
        generate_filename t (Some y) None n = str_int n @ CHR ''.'' # py_lower (rsplit_dot_last y)
      \<and> generate_filename t (Some y) (Some []) n = str_int n @ CHR ''.'' # py_lower (rsplit_dot_last y))
   \<and> (CHR ''.'' \<notin> set z \<longrightarrow>
        generate_filename t (Some z) None n = str_int n @ get_default_extension t
      \<and> generate_filename t (Some z) (Some []) n = str_int n @ get_default_extension t)
   \<and> generate_filename t None None n = str_int n @ get_default_extension t
   \<and> generate_filename t None (Some []) n = str_int n @ get_default_extension t
   \<and> map get_default_extension [''photo'', ''video'', ''audio'', ''voice'', ''sticker'', ''document'']
       = [''.jpg'', ''.mp4'', ''.mp3'', ''.ogg'', ''.webp'', ''.bin'']
   \<and> (\<exists>d. subdirs dir (classify_document (doc_mime_type doc) (doc_attributes doc)) = Some d \<and>
         target_path env dir (Message n d0 sender (Some (MediaDocument (Some doc))))
           = Some (d @ ''/'' @ str_int n @
                   get_file_extension_from_mime (guess_extension env) (doc_mime_type doc)))
   \<and> (CHR ''.'' \<notin> set x \<longrightarrow>
        generate_filename t (Some (b @ CHR ''.'' # x)) None n
          = generate_filename t (Some (b' @ CHR ''.'' # x)) None n)"
proof -
  have "CHR ''.'' \<notin> set x \<Longrightarrow>
        generate_filename t (Some (b @ CHR ''.'' # x)) None n
          = generate_filename t (Some (b' @ CHR ''.'' # x)) None n"
    by (simp add: generate_filename_original rsplit_dot_last_append)
  then show ?thesis
    using generate_filename_explicit[of e t f n]
      generate_filename_original[of None y t n] generate_filename_original[of "Some []" y t n]
      generate_filename_default[of None "Some z" t n] generate_filename_default[of "Some []" "Some z" t n]
      generate_filename_default[of None None t n] generate_filename_default[of "Some []" None t n]
      default_table document_target[of dir doc env n d0 sender]
    by simp
qed

lemma str_int_160883: "str_int 160883 = ''160883''"
  by (simp add: str_int_def digit_char_def)
lemma str_int_160903: "str_int 160903 = ''160903''"
  by (simp add: str_int_def digit_char_def)
lemma str_int_160902: "str_int 160902 = ''160902''"
  by (simp add: str_int_def digit_char_def)
lemma py_lower_jpg: "py_lower ''jpg'' = ''jpg''"
  by code_simp
lemma rsplit_img: "rsplit_dot_last ''IMG_20250720_123456.jpg'' = ''jpg''"
  by (simp add: rsplit_dot_last_def)

text \<open>The amended claim C3 at concrete inputs, each hypothesis discharged.\<close>

theorem generate_filename_resolution_witness:
  "generate_filename ''audio'' None (Some ''.mp3'') 160903 = ''160903.mp3''
   \<and> generate_filename ''audio'' (Some ''IMG_20250720_123456.jpg'') None 160903 = ''160903.jpg''
   \<and> generate_filename ''audio'' (Some ''README'') None 160903 = ''160903.mp3''
   \<and> target_path sample_env ''downloads/media''
        (Message 160903 [] None (Some (MediaDocument (Some (Document ''application/pdf''
           [AttrFilename ''report.txt''] (PInt 4) PNone)))))
       = Some ''downloads/media/documents/160903.pdf''
   \<and> generate_filename ''audio'' (Some ''holiday.jpg'') None 160903
       = generate_filename ''audio'' (Some ''IMG_1.jpg'') None 160903"
  using generate_filename_resolution[of "''.mp3''" "''audio''" None 160903 "''IMG_20250720_123456.jpg''"
      "''README''" "''downloads/media''" "Document ''application/pdf'' [AttrFilename ''report.txt''] (PInt 4) PNone"
      sample_env "[]" None "''jpg''" "''holiday''" "''IMG_1''"]
  by (simp add: str_int_160903 py_lower_jpg rsplit_img get_default_extension_def
      classify_document_def subdirs_def get_file_extension_from_mime_def sample_env_def sample_guess_def)

subsection \<open>Idempotent attachment download\<close>

lemma target_pathD:
  assumes "target_path env dir m = Some p"
  obtains media info save_dir where
    "tl_media m = Some media"
    "extract_media_info (guess_extension env) media = Inr (Some info)"
    "subdirs dir (mi_type info) = Some save_dir"
    "p = save_dir @ ''/'' @ generate_filename (mi_type info) (mi_filename info) (mi_extension info) (tl_id m)"
  using assms
  by (auto simp: target_path_def split: option.splits sum.splits)

lemma download_media_exists:
  assumes "target_path env dir m = Some p" and "fs p = Some content"
  shows "\<exists>t. download_media env dir fs m =
           (Some [(''type'', PStr t), (''file_path'', PStr p),
                  (''file_size'', PInt (int (length content))),
                  (''file_hash'', PStr (md5_hexdigest env content)),
                  (''downloaded'', PBool False), (''reason'', PStr ''already_exists'')],
            fs, False)"
proof -
  from assms(1) obtain media info save_dir where
    "tl_media m = Some media"
    "extract_media_info (guess_extension env) media = Inr (Some info)"
    "subdirs dir (mi_type info) = Some save_dir"
    "p = save_dir @ ''/'' @ generate_filename (mi_type info) (mi_filename info) (mi_extension info) (tl_id m)"
    by (rule target_pathD)
  with assms(2) show ?thesis
    by (simp add: download_media_def calculate_file_hash_eq)
qed

lemma download_media_fetched:
  assumes "target_path env dir m = Some p" and "fs p = None"
    and "fetch env fs m p = (fs', Inr (Some q))" and "q \<noteq> []" and "fs' q = Some bytes"
  shows "\<exists>t md. download_media env dir fs m =
           (Some [(''type'', PStr t), (''file_path'', PStr q),
                  (''file_size'', PInt (int (length bytes))),
                  (''file_hash'', PStr (md5_hexdigest env bytes)),
                  (''downloaded'', PBool True), (''metadata'', PDict md)],
            fs', True)"
proof -
  from assms(1) obtain media info save_dir where
    "tl_media m = Some media"
    "extract_media_info (guess_extension env) media = Inr (Some info)"
    "subdirs dir (mi_type info) = Some save_dir"
    "p = save_dir @ ''/'' @ generate_filename (mi_type info) (mi_filename info) (mi_extension info) (tl_id m)"
    by (rule target_pathD)
  with assms(2-) show ?thesis
    by (simp add: download_media_def calculate_file_hash_eq)
qed

lemma download_media_fetch_failed:
  assumes "target_path env dir m = Some p" and "fs p = None"
    and "fetch env fs m p = (fs', r)"
    and "r = Inr None \<or> (\<exists>e. r = Inl e) \<or> (\<exists>q. r = Inr (Some q) \<and> (q = [] \<or> fs' q = None))"
  shows "download_media env dir fs m = (None, fs', True)"
proof -
  from assms(1) obtain media info save_dir where
    "tl_media m = Some media"
    "extract_media_info (guess_extension env) media = Inr (Some info)"
    "subdirs dir (mi_type info) = Some save_dir"
    "p = save_dir @ ''/'' @ generate_filename (mi_type info) (mi_filename info) (mi_extension info) (tl_id m)"
    by (rule target_pathD)
  with assms(2-) show ?thesis
    by (auto simp: download_media_def)
qed

lemma download_media_no_target:
  assumes "target_path env dir m = None"
  shows "download_media env dir fs m = (None, fs, False)"
  using assms
  by (auto simp: target_path_def download_media_def split: option.splits sum.splits)

lemma target_path_nonempty: "target_path env dir m = Some p \<Longrightarrow> p \<noteq> []"
  by (erule target_pathD) (auto simp: subdirs_def)

text \<open>
  Claim C4, amended.  For a message whose attachment has target path \<open>p\<close>: when
  \<open>p\<close> exists, \<^verbatim>\<open>download_media\<close> does not fetch, leaves the files unchanged and
  returns the existing file's size and content hash with \<^verbatim>\<open>downloaded=False\<close> and
  \<^verbatim>\<open>reason='already_exists'\<close>; when \<open>p\<close> does not exist it calls the fetch, and
  returns \<^verbatim>\<open>downloaded=True\<close> with the saved file's size and hash when the fetch
  returns the path of a file it saved, and no descriptor when the fetch raises, returns
  nothing, or returns a path with no file; the files are then as the fetch left them.
  After a fetch that saved at \<open>p\<close>, a second call for the same message is the
  \<^verbatim>\<open>already_exists\<close> short-circuit with the same size and hash.
\<close>

theorem download_media_idempotent:
  assumes "target_path env dir m = Some p"
  shows "(fs p = Some content \<longrightarrow>
           (\<exists>t. download_media env dir fs m =
              (Some [(''type'', PStr t), (''file_path'', PStr p),
                     (''file_size'', PInt (int (length content))),
                     (''file_hash'', PStr (md5_hexdigest env content)),
                     (''downloaded'', PBool False), (''reason'', PStr ''already_exists'')],
               fs, False)))
       \<and> (fs p = None \<and> fetch env fs m p = (fs', Inr (Some q)) \<and> q \<noteq> [] \<and> fs' q = Some bytes \<longrightarrow>
           (\<exists>t md. download_media env dir fs m =
              (Some [(''type'', PStr t), (''file_path'', PStr q),
                     (''file_size'', PInt (int (length bytes))),
                     (''file_hash'', PStr (md5_hexdigest env bytes)),
                     (''downloaded'', PBool True), (''metadata'', PDict md)],
               fs', True)))
       \<and> (fs p = None \<and> fetch env fs m p = (fs', r)
            \<and> (r = Inr None \<or> (\<exists>e. r = Inl e)
                \<or> (\<exists>q. r = Inr (Some q) \<and> (q = [] \<or> fs' q = None))) \<longrightarrow>
           download_media env dir fs m = (None, fs', True))
       \<and> (fs p = None \<and> fetch env fs m p = (fs', Inr (Some p)) \<and> fs' p = Some bytes \<longrightarrow>
           (\<exists>t. download_media env dir (fst (snd (download_media env dir fs m))) m =
              (Some [(''type'', PStr t), (''file_path'', PStr p),
                     (''file_size'', PInt (int (length bytes))),
                     (''file_hash'', PStr (md5_hexdigest env bytes)),
                     (''downloaded'', PBool False), (''reason'', PStr ''already_exists'')],
               fs', False)))"
proof (intro conjI impI)
  assume "fs p = Some content"
  with assms show "\<exists>t. download_media env dir fs m =
              (Some [(''type'', PStr t), (''file_path'', PStr p),
                     (''file_size'', PInt (int (length content))),
                     (''file_hash'', PStr (md5_hexdigest env content)),
                     (''downloaded'', PBool False), (''reason'', PStr ''already_exists'')],
               fs, False)"
    by (rule download_media_exists)
next
  assume "fs p = None \<and> fetch env fs m p = (fs', Inr (Some q)) \<and> q \<noteq> [] \<and> fs' q = Some bytes"
  with assms show "\<exists>t md. download_media env dir fs m =
              (Some [(''type'', PStr t), (''file_path'', PStr q),
                     (''file_size'', PInt (int (length bytes))),
                     (''file_hash'', PStr (md5_hexdigest env bytes)),
                     (''downloaded'', PBool True), (''metadata'', PDict md)],
               fs', True)"
    by (simp add: download_media_fetched)
next
  assume "fs p = None \<and> fetch env fs m p = (fs', r)
            \<and> (r = Inr None \<or> (\<exists>e. r = Inl e)
                \<or> (\<exists>q. r = Inr (Some q) \<and> (q = [] \<or> fs' q = None)))"
  with assms show "download_media env dir fs m = (None, fs', True)"
    using download_media_fetch_failed[of env dir m p fs fs' r] by blast
next
  assume a: "fs p = None \<and> fetch env fs m p = (fs', Inr (Some p)) \<and> fs' p = Some bytes"
  from assms have "p \<noteq> []" by (rule target_path_nonempty)
  with assms a obtain t md where
    "download_media env dir fs m =
       (Some [(''type'', PStr t), (''file_path'', PStr p),
              (''file_size'', PInt (int (length bytes))),
              (''file_hash'', PStr (md5_hexdigest env bytes)),
              (''downloaded'', PBool True), (''metadata'', PDict md)],
        fs', True)"
    using download_media_fetched[of env dir m p fs fs' p bytes] by auto
  then have "fst (snd (download_media env dir fs m)) = fs'" by simp
  then show "\<exists>t. download_media env dir (fst (snd (download_media env dir fs m))) m =
              (Some [(''type'', PStr t), (''file_path'', PStr p),
                     (''file_size'', PInt (int (length bytes))),
                     (''file_hash'', PStr (md5_hexdigest env bytes)),
                     (''downloaded'', PBool False), (''reason'', PStr ''already_exists'')],
               fs', False)"
    using download_media_exists[OF assms, of fs' bytes] a by simp
qed

lemma offline_target:
  "target_path offline_env ''downloads/media'' sample_document_message = Some ''downloads/media/documents/7.pdf''"
  by (simp add: target_path_def offline_env_def sample_document_message_def extract_media_info_def
      classify_document_def get_file_extension_from_mime_def sample_guess_def subdirs_def
      generate_filename_def str_nat_7)

lemma broken_target:
  "target_path broken_env ''downloads/media'' sample_document_message = Some ''downloads/media/documents/7.pdf''"
  by (simp add: target_path_def broken_env_def sample_document_message_def extract_media_info_def
      classify_document_def get_file_extension_from_mime_def sample_guess_def subdirs_def
      generate_filename_def str_nat_7)

text \<open>
  Claim C4, as stated, fails when the fetch reports nothing: the target path does not
  exist, and \<^verbatim>\<open>download_media\<close> returns no descriptor instead of one with
  \<^verbatim>\<open>downloaded=True\<close>.
\<close>

theorem download_media_fetch_counterexample:
  "target_path offline_env ''downloads/media'' sample_document_message
     = Some ''downloads/media/documents/7.pdf''
   \<and> Map.empty ''downloads/media/documents/7.pdf'' = (None :: string option)
   \<and> fst (download_media offline_env ''downloads/media'' Map.empty sample_document_message) = None"
proof -
  have "fetch offline_env Map.empty sample_document_message ''downloads/media/documents/7.pdf''
          = (Map.empty, Inr None)"
    by (simp add: offline_env_def)
  then show ?thesis
    using download_media_fetch_failed[OF offline_target, of Map.empty Map.empty "Inr None"]
    by (simp add: offline_target)
qed

lemma str_nat_4: "str_nat 4 = ''4''" by (simp add: digit_char_def)

text \<open>
  The amended claim C4 on the sample document: with an existing file; with a fetch that
  saves; with a fetch that reports nothing; with a fetch that raises after writing two
  bytes, which stay; and the second call after the fetch that saved.
\<close>

theorem download_media_idempotent_witness:
  "target_path sample_env ''downloads/media'' sample_document_message
     = Some ''downloads/media/documents/7.pdf''
   \<and> (\<exists>t. download_media sample_env ''downloads/media''
            [''downloads/media/documents/7.pdf'' \<mapsto> ''old''] sample_document_message =
          (Some [(''type'', PStr t), (''file_path'', PStr ''downloads/media/documents/7.pdf''),
                 (''file_size'', PInt 3), (''file_hash'', PStr ''3''),
                 (''downloaded'', PBool False), (''reason'', PStr ''already_exists'')],
           [''downloads/media/documents/7.pdf'' \<mapsto> ''old''], False))
   \<and> (\<exists>t md. download_media sample_env ''downloads/media'' Map.empty sample_document_message =
          (Some [(''type'', PStr t), (''file_path'', PStr ''downloads/media/documents/7.pdf''),
                 (''file_size'', PInt 4), (''file_hash'', PStr ''4''),
                 (''downloaded'', PBool True), (''metadata'', PDict md)],
           [''downloads/media/documents/7.pdf'' \<mapsto> ''data''], True))
   \<and> download_media offline_env ''downloads/media'' Map.empty sample_document_message
       = (None, Map.empty, True)
   \<and> download_media broken_env ''downloads/media'' Map.empty sample_document_message
       = (None, [''downloads/media/documents/7.pdf'' \<mapsto> ''da''], True)
   \<and> (\<exists>t. download_media sample_env ''downloads/media''
            (fst (snd (download_media sample_env ''downloads/media'' Map.empty sample_document_message)))
            sample_document_message =
          (Some [(''type'', PStr t), (''file_path'', PStr ''downloads/media/documents/7.pdf''),
                 (''file_size'', PInt 4), (''file_hash'', PStr ''4''),
                 (''downloaded'', PBool False), (''reason'', PStr ''already_exists'')],
           [''downloads/media/documents/7.pdf'' \<mapsto> ''data''], False))"
proof -
  let ?p = "''downloads/media/documents/7.pdf''"
  have f: "fetch sample_env Map.empty sample_document_message ?p = ([?p \<mapsto> ''data''], Inr (Some ?p))"
    by (simp add: sample_env_def)
  have g: "fetch offline_env Map.empty sample_document_message ?p = (Map.empty, Inr None)"
    by (simp add: offline_env_def)
  have b: "fetch broken_env Map.empty sample_document_message ?p = ([?p \<mapsto> ''da''], Inl OtherError)"
    by (simp add: broken_env_def)
  have h: "md5_hexdigest sample_env ''old'' = ''3''" "md5_hexdigest sample_env ''data'' = ''4''"
    by (simp_all add: sample_env_def digit_char_def)
  show ?thesis
    using download_media_idempotent[OF sample_target, of "[?p \<mapsto> ''old'']" "''old''"
        "[?p \<mapsto> ''data'']" ?p "''data''" "Inr None"]
      download_media_idempotent[OF sample_target, of Map.empty "''old''"
        "[?p \<mapsto> ''data'']" ?p "''data''" "Inr None"]
      download_media_idempotent[OF offline_target, of Map.empty "''old''"
        Map.empty ?p "''data''" "Inr None"]
      download_media_idempotent[OF broken_target, of Map.empty "''old''"
        "[?p \<mapsto> ''da'']" ?p "''data''" "Inl OtherError"]
    by (simp add: sample_target f g b h)
qed

subsection \<open>Validation\<close>

lemma first_missing_required:
  "first_missing [''id'', ''date'', ''message''] m = None
     \<longleftrightarrow> dict_has m ''id'' \<and> dict_has m ''date'' \<and> dict_has m ''message''"
  by simp

lemma is_positive_int_iff:
  "is_positive_int v \<longleftrightarrow> (\<exists>n. v = PInt n \<and> 0 < n) \<or> v = PBool True"
  by (cases v) auto

lemma date_check_fails_iff:
  "date_check_fails lib v \<longleftrightarrow> (\<exists>s. v = PStr s \<and> fromisoformat lib (replace_Z s) = None)"
  by (cases v) (auto simp: date_check_fails_def)

lemma dict_get_has: "dict_has m k \<Longrightarrow> dict_get m k d = dict_get m k d'"
  by (auto simp: dict_has_def dict_get_def)

lemma validate_message_true_iff:
  "validate_message lib cfg m = (True, None) \<longleftrightarrow>
     dict_has m ''id'' \<and> dict_has m ''date'' \<and> dict_has m ''message''
     \<and> ((\<exists>n. dict_get m ''id'' PNone = PInt n \<and> 0 < n) \<or> dict_get m ''id'' PNone = PBool True)
     \<and> (validate_dates cfg \<longrightarrow>
          (\<forall>s. dict_get m ''date'' PNone = PStr s \<longrightarrow> fromisoformat lib (replace_Z s) \<noteq> None))
     \<and> (\<exists>t. dict_get m ''message'' PNone = PStr t
             \<and> min_text_length cfg \<le> int (length t) \<and> int (length t) \<le> max_text_length cfg)
     \<and> (remove_deleted_users cfg \<longrightarrow>
          (\<exists>d. dict_get m ''sender_info'' (PDict []) = PDict d
              \<and> \<not> truthy (dict_get d ''deleted'' (PBool False))))"
proof (cases "dict_has m ''id'' \<and> dict_has m ''date'' \<and> dict_has m ''message''")
  case False
  then have "first_missing [''id'', ''date'', ''message''] m \<noteq> None"
    using first_missing_required[of m] by blast
  then obtain f where "first_missing [''id'', ''date'', ''message''] m = Some f" by blast
  with False show ?thesis
    unfolding validate_message_def by (auto simp del: first_missing.simps)
next
  case True
  then have fm: "first_missing [''id'', ''date'', ''message''] m = None"
    using first_missing_required[of m] by blast
  from True have g: "dict_get m ''message'' (PStr []) = dict_get m ''message'' PNone"
    by (simp add: dict_get_has[of m "''message''"])
  show ?thesis
    unfolding validate_message_def fm g is_positive_int_iff date_check_fails_iff
    using True
    by (cases "dict_get m ''message'' PNone"; cases "dict_get m ''sender_info'' (PDict [])")
       (auto simp del: first_missing.simps)
qed

lemma validate_message_false:
  "validate_message lib cfg m \<noteq> (True, None) \<Longrightarrow> \<exists>r. validate_message lib cfg m = (False, Some r)"
  by (auto simp: validate_message_def split: option.splits if_splits pyval.splits)


subsection \<open>Cleaning keeps the id\<close>

lemma map_of_dict_set: "map_of (dict_set d k v) k' = (if k' = k then Some v else map_of d k')"
  by (induction d) auto

lemma map_of_dict_del: "map_of (dict_del d k) k' = (if k' = k then None else map_of d k')"
  by (induction d) (auto simp: dict_del_def)

lemma dict_get_dict_set: "dict_get (dict_set d k v) k' dflt = (if k' = k then v else dict_get d k' dflt)"
  by (simp add: dict_get_def map_of_dict_set)

lemma dict_get_dict_del: "k' \<noteq> k \<Longrightarrow> dict_get (dict_del d k) k' dflt = dict_get d k' dflt"
  by (simp add: dict_get_def map_of_dict_del)

lemma clean_message_media_key_id:
  "media_key \<noteq> ''id'' \<Longrightarrow>
   dict_get (clean_message_media_key d media_key) ''id'' dflt = dict_get d ''id'' dflt"
  by (simp add: clean_message_media_key_def dict_get_dict_del split: option.splits)

lemma clean_message_id: "dict_get (clean_message lib cfg m) ''id'' dflt = dict_get m ''id'' dflt"
proof -
  have "dict_get (clean_message_text lib cfg m) ''id'' dflt = dict_get m ''id'' dflt"
    by (simp add: clean_message_text_def dict_get_dict_set split: option.splits pyval.splits)
  moreover have "\<And>d. dict_get (clean_message_date lib d) ''id'' dflt = dict_get d ''id'' dflt"
    by (simp add: clean_message_date_def dict_get_dict_set split: option.splits pyval.splits)
  moreover have "\<And>d. dict_get (clean_message_sender d) ''id'' dflt = dict_get d ''id'' dflt"
    by (simp add: clean_message_sender_def dict_get_dict_set split: option.splits pyval.splits)
  ultimately show ?thesis
    by (simp add: clean_message_def clean_message_media_key_id)
qed

subsection \<open>The validation loop\<close>

lemma validate_loop_valid:
  "fst (validate_loop lib cfg ms)
     = map (clean_message lib cfg) (filter (\<lambda>m. fst (validate_message lib cfg m)) ms)"
  by (induction ms) (auto split: prod.splits)

lemma validate_loop_invalid:
  "snd (validate_loop lib cfg ms)
     = map (\<lambda>m. (m, snd (validate_message lib cfg m)))
         (filter (\<lambda>m. \<not> fst (validate_message lib cfg m)) ms)"
  by (induction ms) (auto split: prod.splits)

lemma valid_id_positive:
  "fst (validate_message lib cfg m) \<Longrightarrow> is_positive_int (dict_get m ''id'' PNone)"
  by (auto simp: validate_message_def split: option.splits if_splits pyval.splits)

lemma positive_int_hashable: "is_positive_int v \<Longrightarrow> truthy v \<and> hashable v"
  by (cases v) auto

lemma dedup_loop_total:
  "\<forall>m \<in> set ms. truthy (dict_get m ''id'' PNone) \<longrightarrow> hashable (dict_get m ''id'' PNone)
   \<Longrightarrow> \<exists>out. dedup_loop seen ms = Inr out"
proof (induction ms arbitrary: seen)
  case Nil
  then show ?case by simp
next
  case (Cons m ms)
  then have ih: "\<And>seen. \<exists>out. dedup_loop seen ms = Inr out" by simp
  from ih[of seen] obtain o1 where o1: "dedup_loop seen ms = Inr o1" by blast
  from ih[of "dict_get m ''id'' PNone # seen"] obtain o2
    where o2: "dedup_loop (dict_get m ''id'' PNone # seen) ms = Inr o2" by blast
  from Cons.prems have "truthy (dict_get m ''id'' PNone) \<longrightarrow> hashable (dict_get m ''id'' PNone)"
    by simp
  with o1 o2 show ?case by (auto simp: Let_def)
qed

lemma cleaned_valid_ids:
  "\<forall>m \<in> set (fst (validate_loop lib cfg ms)).
     truthy (dict_get m ''id'' PNone) \<and> hashable (dict_get m ''id'' PNone)"
  by (auto simp: validate_loop_valid clean_message_id dest!: valid_id_positive positive_int_hashable)

lemma validate_and_clean_batch_total:
  "\<exists>valid. validate_and_clean_batch lib cfg ms
     = Inr (valid, map (\<lambda>m. (m, snd (validate_message lib cfg m)))
                     (filter (\<lambda>m. \<not> fst (validate_message lib cfg m)) ms))"
proof -
  obtain v i where vi: "validate_loop lib cfg ms = (v, i)" by (cases "validate_loop lib cfg ms")
  then have i: "i = map (\<lambda>m. (m, snd (validate_message lib cfg m)))
                     (filter (\<lambda>m. \<not> fst (validate_message lib cfg m)) ms)"
    using validate_loop_invalid[of lib cfg ms] by simp
  from vi have "\<forall>m \<in> set v. truthy (dict_get m ''id'' PNone) \<longrightarrow> hashable (dict_get m ''id'' PNone)"
    using cleaned_valid_ids[of lib cfg ms] by simp
  then obtain out where "dedup_loop [] v = Inr out"
    using dedup_loop_total[of v "[]"] by blast
  with vi i show ?thesis
    by (auto simp: validate_and_clean_batch_def remove_duplicates_from_list_def)
qed


text \<open>
  Claim C5, as stated, fails: a record whose date is \<^verbatim>\<open>None\<close> passes
  \<open>validate_message\<close>, because the date is only checked when it is a string.
\<close>

theorem validate_message_date_counterexample:
  "validate_message sample_lib default_validator_config undated_message = (True, None)
   \<and> \<not> spec_valid sample_lib default_validator_config undated_message"
  by (simp add: validate_message_def spec_valid_def undated_message_def default_validator_config_def
      dict_has_def dict_get_def date_check_fails_def)

text \<open>
  Claim C5, amended.  \<open>validate_message\<close> returns \<open>(True, None)\<close> exactly when the
  record has the fields id, date and message; its id is an \<^verbatim>\<open>int\<close> instance greater
  than zero (the boolean \<^verbatim>\<open>True\<close> included); when date validation is on and the date
  is a string, the string parses (a date that is not a string is not checked); the text
  is a string whose length lies within the configured bounds (defaults 0 and 10000);
  and, when deleted-user removal is on, the sender information (an empty mapping when
  absent) is a mapping whose \<^verbatim>\<open>deleted\<close> entry is absent or falsy.  Otherwise it
  returns \<open>(False, reason)\<close>.  \<open>validate_and_clean_batch\<close> never aborts: it returns,
  and its invalid list holds every failing record of the input, in order, with its reason.
\<close>

theorem validate_message_characterised:
  "(validate_message lib cfg m = (True, None) \<longleftrightarrow>
     dict_has m ''id'' \<and> dict_has m ''date'' \<and> dict_has m ''message''
     \<and> ((\<exists>n. dict_get m ''id'' PNone = PInt n \<and> 0 < n) \<or> dict_get m ''id'' PNone = PBool True)
     \<and> (validate_dates cfg \<longrightarrow>
          (\<forall>s. dict_get m ''date'' PNone = PStr s \<longrightarrow> fromisoformat lib (replace_Z s) \<noteq> None))
     \<and> (\<exists>t. dict_get m ''message'' PNone = PStr t
             \<and> min_text_length cfg \<le> int (length t) \<and> int (length t) \<le> max_text_length cfg)
     \<and> (remove_deleted_users cfg \<longrightarrow>
          (\<exists>d. dict_get m ''sender_info'' (PDict []) = PDict d
              \<and> \<not> truthy (dict_get d ''deleted'' (PBool False)))))
   \<and> (validate_message lib cfg m \<noteq> (True, None) \<longrightarrow>
        (\<exists>r. validate_message lib cfg m = (False, Some r)))
   \<and> (\<exists>valid. validate_and_clean_batch lib cfg ms
         = Inr (valid, map (\<lambda>m. (m, snd (validate_message lib cfg m)))
                         (filter (\<lambda>m. \<not> fst (validate_message lib cfg m)) ms)))
   \<and> min_text_length default_validator_config = 0
   \<and> max_text_length default_validator_config = 10000"
  using validate_message_true_iff[of lib cfg m] validate_message_false[of lib cfg m]
    validate_and_clean_batch_total[of lib cfg ms]
  by (simp add: default_validator_config_def)

lemma sample_date_ok: "fromisoformat sample_lib (replace_Z ''2025-07-20'') \<noteq> None"
  by (simp add: sample_lib_def sample_parse_date_def replace_Z_def)

text \<open>The amended claim C5 on a valid record, on one with id 0, and on the batch of both.\<close>

theorem validate_message_characterised_witness:
  "validate_message sample_lib default_validator_config (sample_message 1 ''hello'') = (True, None)
   \<and> (\<exists>r. validate_message sample_lib default_validator_config (sample_message 0 ''x'')
            = (False, Some r))
   \<and> (\<exists>valid. validate_and_clean_batch sample_lib default_validator_config
                  [sample_message 1 ''hello'', sample_message 0 ''x'']
         = Inr (valid, [(sample_message 0 ''x'', Some BadId)]))"
proof -
  let ?cfg = default_validator_config
  have a: "validate_message sample_lib ?cfg (sample_message 1 ''hello'') = (True, None)"
    using validate_message_characterised[of sample_lib ?cfg "sample_message 1 ''hello''" "[]"]
      sample_date_ok
    by (simp add: sample_message_def dict_has_def dict_get_def default_validator_config_def)
  have "validate_message sample_lib ?cfg (sample_message 0 ''x'') \<noteq> (True, None)"
    using validate_message_characterised[of sample_lib ?cfg "sample_message 0 ''x''" "[]"]
    by (simp add: sample_message_def dict_has_def dict_get_def)
  then have b: "\<exists>r. validate_message sample_lib ?cfg (sample_message 0 ''x'') = (False, Some r)"
    using validate_message_characterised[of sample_lib ?cfg "sample_message 0 ''x''" "[]"]
    by blast
  have c0: "validate_message sample_lib ?cfg (sample_message 0 ''x'') = (False, Some BadId)"
    by (simp add: validate_message_def sample_message_def dict_has_def dict_get_def)
  have c: "\<exists>valid. validate_and_clean_batch sample_lib ?cfg
                  [sample_message 1 ''hello'', sample_message 0 ''x'']
         = Inr (valid, [(sample_message 0 ''x'', Some BadId)])"
    using validate_message_characterised[of sample_lib ?cfg "sample_message 1 ''hello''"
        "[sample_message 1 ''hello'', sample_message 0 ''x'']"] a c0
    by simp
  from a b c show ?thesis by blast
qed

subsection \<open>Duplicate removal\<close>

lemma py_eq_sym: "hashable a \<Longrightarrow> hashable b \<Longrightarrow> py_eq a b = py_eq b a"
  by (cases a; cases b) (auto split: option.splits)

lemma py_eq_trans:
  "hashable a \<Longrightarrow> hashable b \<Longrightarrow> hashable c \<Longrightarrow> py_eq a b \<Longrightarrow> py_eq b c \<Longrightarrow> py_eq a c"
  by (cases a; cases b; cases c) (auto split: option.splits if_splits)

lemma py_eq_truthy: "hashable a \<Longrightarrow> hashable b \<Longrightarrow> py_eq a b \<Longrightarrow> truthy a = truthy b"
  by (cases a; cases b) (auto split: option.splits if_splits)

lemma py_eq_falsy_truthy: "\<not> truthy a \<Longrightarrow> truthy v \<Longrightarrow> hashable v \<Longrightarrow> \<not> py_eq a v"
  by (cases a; cases v) (auto split: option.splits if_splits)


lemma dedup_loop_subseq: "dedup_loop seen ms = Inr out \<Longrightarrow> subseq out ms"
proof (induction ms arbitrary: seen out)
  case Nil
  then show ?case by simp
next
  case (Cons m ms)
  then show ?case
    by (auto simp: Let_def split: if_splits sum.splits)
qed

lemma dedup_loop_falsy:
  "dedup_loop seen ms = Inr out \<Longrightarrow>
   filter (\<lambda>m. \<not> truthy (msg_id m)) out = filter (\<lambda>m. \<not> truthy (msg_id m)) ms"
proof (induction ms arbitrary: seen out)
  case Nil
  then show ?case by simp
next
  case (Cons m ms)
  then show ?case
    by (auto simp: Let_def split: if_splits sum.splits)
qed

lemma dedup_loop_first:
  assumes "dedup_loop seen ms = Inr out" and "truthy v" and "hashable v"
    and "\<forall>s \<in> set seen. hashable s"
  shows "filter (\<lambda>m. py_eq (msg_id m) v) out =
           (if list_ex (\<lambda>s. py_eq s v) seen then []
            else (case find (\<lambda>m. py_eq (msg_id m) v) ms of None \<Rightarrow> [] | Some m \<Rightarrow> [m]))"
  using assms
proof (induction ms arbitrary: seen out)
  case Nil
  then show ?case by simp
next
  case (Cons m ms)
  let ?i = "msg_id m"
  show ?case
  proof (cases "truthy ?i")
    case False
    with Cons.prems obtain out' where o: "dedup_loop seen ms = Inr out'" "out = m # out'"
      by (auto simp: Let_def split: sum.splits)
    have np: "\<not> py_eq ?i v"
      using False Cons.prems(2,3) by (rule py_eq_falsy_truthy)
    from Cons.IH[OF o(1) Cons.prems(2,3,4)] o(2) np show ?thesis by simp
  next
    case True
    with Cons.prems(1) have hi: "hashable ?i" by (auto simp: Let_def split: if_splits)
    show ?thesis
    proof (cases "list_ex (py_eq ?i) seen")
      case seen: True
      with True hi Cons.prems(1) have o: "dedup_loop seen ms = Inr out"
        by (simp add: Let_def)
      have "py_eq ?i v \<Longrightarrow> list_ex (\<lambda>s. py_eq s v) seen"
      proof -
        assume pe: "py_eq ?i v"
        from seen obtain s where s: "s \<in> set seen" "py_eq ?i s" by (auto simp: list_ex_iff)
        with Cons.prems(4) have hs: "hashable s" by simp
        from s(2) hi hs have "py_eq s ?i" by (simp add: py_eq_sym)
        with pe hs hi Cons.prems(3) have "py_eq s v" by (blast intro: py_eq_trans)
        with s(1) show ?thesis by (auto simp: list_ex_iff)
      qed
      with Cons.IH[OF o Cons.prems(2,3,4)] show ?thesis by auto
    next
      case unseen: False
      with True hi Cons.prems(1) obtain out' where
        o: "dedup_loop (?i # seen) ms = Inr out'" "out = m # out'"
        by (auto simp: Let_def split: sum.splits)
      have hs: "\<forall>s \<in> set (?i # seen). hashable s" using hi Cons.prems(4) by simp
      note ih = Cons.IH[OF o(1) Cons.prems(2,3) hs]
      show ?thesis
      proof (cases "py_eq ?i v")
        case pe: True
        have "\<not> list_ex (\<lambda>s. py_eq s v) seen"
        proof
          assume "list_ex (\<lambda>s. py_eq s v) seen"
          then obtain s where s: "s \<in> set seen" "py_eq s v" by (auto simp: list_ex_iff)
          with Cons.prems(4) have hs': "hashable s" by simp
          from s(2) hs' Cons.prems(3) have "py_eq v s" by (simp add: py_eq_sym)
          with pe hi hs' Cons.prems(3) have "py_eq ?i s" by (blast intro: py_eq_trans)
          with s(1) unseen show False by (auto simp: list_ex_iff)
        qed
        with ih o(2) pe show ?thesis by simp
      next
        case npe: False
        with ih o(2) show ?thesis by simp
      qed
    qed
  qed
qed


lemma py_eq_refl: "hashable a \<Longrightarrow> py_eq a a"
  by (cases a) (auto split: option.splits)

lemma find_first_exists:
  "x \<in> set xs \<Longrightarrow> P x \<Longrightarrow> \<exists>first. find P xs = Some first"
  by (induction xs) auto

lemma remove_duplicates_first_wins:
  assumes on: "remove_duplicates cfg"
    and h: "\<forall>x \<in> set xs. truthy (msg_id x) \<longrightarrow> hashable (msg_id x)"
  shows "\<exists>out. remove_duplicates_from_list cfg xs = Inr out \<and> subseq out xs
           \<and> filter (\<lambda>m. \<not> truthy (msg_id m)) out = filter (\<lambda>m. \<not> truthy (msg_id m)) xs
           \<and> (\<forall>x \<in> set xs. truthy (msg_id x) \<longrightarrow>
                (\<exists>first. find (\<lambda>m. py_eq (msg_id m) (msg_id x)) xs = Some first
                   \<and> filter (\<lambda>m. py_eq (msg_id m) (msg_id x)) out = [first]))"
proof -
  from h obtain out where out: "dedup_loop [] xs = Inr out"
    using dedup_loop_total[of xs "[]"] by blast
  have "\<exists>first. find (\<lambda>m. py_eq (msg_id m) (msg_id x)) xs = Some first
                   \<and> filter (\<lambda>m. py_eq (msg_id m) (msg_id x)) out = [first]"
    if x: "x \<in> set xs" "truthy (msg_id x)" for x
  proof -
    from x h have hx: "hashable (msg_id x)" by blast
    then have "py_eq (msg_id x) (msg_id x)" by (rule py_eq_refl)
    with x(1) obtain first where f: "find (\<lambda>m. py_eq (msg_id m) (msg_id x)) xs = Some first"
      using find_first_exists[of x xs "\<lambda>m. py_eq (msg_id m) (msg_id x)"] by blast
    with dedup_loop_first[OF out x(2) hx] show ?thesis by simp
  qed
  with out on dedup_loop_subseq[OF out] dedup_loop_falsy[OF out] show ?thesis
    by (auto simp: remove_duplicates_from_list_def)
qed

lemma validate_and_clean_batch_eq:
  "validate_and_clean_batch lib cfg ms =
     (case remove_duplicates_from_list cfg
        (map (clean_message lib cfg) (filter (\<lambda>m. fst (validate_message lib cfg m)) ms)) of
        Inl e \<Rightarrow> Inl e
      | Inr unique_messages \<Rightarrow> Inr (unique_messages, snd (validate_loop lib cfg ms)))"
  using validate_loop_valid[of lib cfg ms]
  by (cases "validate_loop lib cfg ms") (auto simp: validate_and_clean_batch_def split: sum.splits)

lemma duplicates_valid:
  "fst (validate_message sample_lib cfg duplicate_first)"
  "fst (validate_message sample_lib cfg duplicate_second)"
  if "min_text_length cfg = 0" "max_text_length cfg = 10000"
  using that sample_date_ok
  by (simp_all add: validate_message_def duplicate_first_def duplicate_second_def
      dict_has_def dict_get_def date_check_fails_def)

lemma duplicates_ids:
  "msg_id (clean_message lib cfg duplicate_first) = PInt 5"
  "msg_id (clean_message lib cfg duplicate_second) = PInt 5"
  by (simp_all add: clean_message_id) (simp_all add: duplicate_first_def duplicate_second_def dict_get_def)

lemma duplicates_example:
  "validate_and_clean_batch sample_lib default_validator_config [duplicate_first, duplicate_second]
     = Inr ([clean_message sample_lib default_validator_config duplicate_first], [])"
proof -
  have "validate_loop sample_lib default_validator_config [duplicate_first, duplicate_second]
          = ([clean_message sample_lib default_validator_config duplicate_first,
              clean_message sample_lib default_validator_config duplicate_second], [])"
    using duplicates_valid[of default_validator_config]
    by (auto simp: default_validator_config_def split: prod.splits)
  then show ?thesis
    by (simp add: validate_and_clean_batch_def remove_duplicates_from_list_def duplicates_ids
        default_validator_config_def)
qed

text \<open>
  Claim C6, as stated, fails when duplicate removal is switched off in the validator's
  settings: both records with id 5 reach the output.
\<close>

theorem validate_and_clean_batch_dedup_counterexample:
  "validate_and_clean_batch sample_lib keep_duplicates_config [duplicate_first, duplicate_second]
     = Inr ([clean_message sample_lib keep_duplicates_config duplicate_first,
             clean_message sample_lib keep_duplicates_config duplicate_second], [])
   \<and> dict_get (clean_message sample_lib keep_duplicates_config duplicate_first) ''id'' PNone = PInt 5
   \<and> dict_get (clean_message sample_lib keep_duplicates_config duplicate_second) ''id'' PNone = PInt 5"
proof -
  have "validate_loop sample_lib keep_duplicates_config [duplicate_first, duplicate_second]
          = ([clean_message sample_lib keep_duplicates_config duplicate_first,
              clean_message sample_lib keep_duplicates_config duplicate_second], [])"
    using duplicates_valid[of keep_duplicates_config]
    by (auto simp: keep_duplicates_config_def default_validator_config_def split: prod.splits)
  then show ?thesis
    by (simp add: validate_and_clean_batch_def remove_duplicates_from_list_def duplicates_ids
        keep_duplicates_config_def default_validator_config_def)
qed

text \<open>
  Claim C6, amended.  When duplicate removal is enabled (the default),
  \<open>validate_and_clean_batch\<close> returns the cleaned valid records deduplicated by id with
  the first occurrence winning: the output is a subsequence of the cleaned valid
  records (original order), every such record has an id, and for each of them the
  output holds exactly one record with that id, the first-seen one.  On any list whose
  ids are hashable, \<open>remove_duplicates_from_list\<close> does the same for the records with
  a truthy id and keeps every record whose id is missing or falsy.  The batch of two
  records with id 5, one with and one without sender information, yields exactly the
  first.
\<close>

theorem validate_and_clean_batch_dedup:
  assumes "remove_duplicates cfg"
  shows "(\<exists>out invalid. validate_and_clean_batch lib cfg ms = Inr (out, invalid)
           \<and> subseq out (map (clean_message lib cfg) (filter (\<lambda>m. fst (validate_message lib cfg m)) ms))
           \<and> (\<forall>x \<in> set (map (clean_message lib cfg) (filter (\<lambda>m. fst (validate_message lib cfg m)) ms)).
                truthy (msg_id x)
                \<and> (\<exists>first. find (\<lambda>m. py_eq (msg_id m) (msg_id x))
                              (map (clean_message lib cfg)
                                 (filter (\<lambda>m. fst (validate_message lib cfg m)) ms)) = Some first
                     \<and> filter (\<lambda>m. py_eq (msg_id m) (msg_id x)) out = [first])))
       \<and> ((\<forall>x \<in> set xs. truthy (msg_id x) \<longrightarrow> hashable (msg_id x)) \<longrightarrow>
            (\<exists>out. remove_duplicates_from_list cfg xs = Inr out \<and> subseq out xs
               \<and> filter (\<lambda>m. \<not> truthy (msg_id m)) out = filter (\<lambda>m. \<not> truthy (msg_id m)) xs
               \<and> (\<forall>x \<in> set xs. truthy (msg_id x) \<longrightarrow>
                    (\<exists>first. find (\<lambda>m. py_eq (msg_id m) (msg_id x)) xs = Some first
                       \<and> filter (\<lambda>m. py_eq (msg_id m) (msg_id x)) out = [first]))))
       \<and> validate_and_clean_batch sample_lib default_validator_config [duplicate_first, duplicate_second]
           = Inr ([clean_message sample_lib default_validator_config duplicate_first], [])"
proof -
  let ?cleaned = "map (clean_message lib cfg) (filter (\<lambda>m. fst (validate_message lib cfg m)) ms)"
  have ids: "\<forall>x \<in> set ?cleaned. truthy (msg_id x) \<and> hashable (msg_id x)"
    using cleaned_valid_ids[of lib cfg ms] by (simp add: validate_loop_valid)
  then have "\<forall>x \<in> set ?cleaned. truthy (msg_id x) \<longrightarrow> hashable (msg_id x)" by blast
  from remove_duplicates_first_wins[OF assms this] obtain out where
    out: "remove_duplicates_from_list cfg ?cleaned = Inr out" "subseq out ?cleaned"
      "\<forall>x \<in> set ?cleaned. truthy (msg_id x) \<longrightarrow>
         (\<exists>first. find (\<lambda>m. py_eq (msg_id m) (msg_id x)) ?cleaned = Some first
            \<and> filter (\<lambda>m. py_eq (msg_id m) (msg_id x)) out = [first])"
    by blast
  from out(1) have "validate_and_clean_batch lib cfg ms = Inr (out, snd (validate_loop lib cfg ms))"
    by (simp add: validate_and_clean_batch_eq)
  with out(2,3) ids have first: "\<exists>out invalid. validate_and_clean_batch lib cfg ms = Inr (out, invalid)
           \<and> subseq out ?cleaned
           \<and> (\<forall>x \<in> set ?cleaned. truthy (msg_id x)
                \<and> (\<exists>first. find (\<lambda>m. py_eq (msg_id m) (msg_id x)) ?cleaned = Some first
                     \<and> filter (\<lambda>m. py_eq (msg_id m) (msg_id x)) out = [first]))"
    by blast
  show ?thesis
    using first remove_duplicates_first_wins[OF assms, of xs] duplicates_example
    by blast
qed


text \<open>The amended claim C6 on the batch of two records with id 5, under the default
  settings.\<close>

theorem validate_and_clean_batch_dedup_witness:
  "remove_duplicates default_validator_config
   \<and> (\<exists>out invalid.
         validate_and_clean_batch sample_lib default_validator_config
           [duplicate_first, duplicate_second] = Inr (out, invalid)
         \<and> filter (\<lambda>m. py_eq (msg_id m) (PInt 5)) out
             = [clean_message sample_lib default_validator_config duplicate_first])
   \<and> (\<exists>out. remove_duplicates_from_list default_validator_config
                [duplicate_first, duplicate_second] = Inr out
         \<and> filter (\<lambda>m. py_eq (msg_id m) (PInt 5)) out = [duplicate_first])"
proof -
  let ?cfg = default_validator_config
  let ?c1 = "clean_message sample_lib ?cfg duplicate_first"
  let ?c2 = "clean_message sample_lib ?cfg duplicate_second"
  have on: "remove_duplicates ?cfg" by (simp add: default_validator_config_def)
  have cleaned: "map (clean_message sample_lib ?cfg)
                   (filter (\<lambda>m. fst (validate_message sample_lib ?cfg m))
                      [duplicate_first, duplicate_second]) = [?c1, ?c2]"
    using duplicates_valid[of ?cfg] by (simp add: default_validator_config_def)
  have raw_ids: "msg_id duplicate_first = PInt 5" "msg_id duplicate_second = PInt 5"
    by (simp_all add: duplicate_first_def duplicate_second_def dict_get_def)
  note inst = validate_and_clean_batch_dedup[OF on, of sample_lib
      "[duplicate_first, duplicate_second]" "[duplicate_first, duplicate_second]"]
  from inst obtain out invalid where
    o: "validate_and_clean_batch sample_lib ?cfg [duplicate_first, duplicate_second] = Inr (out, invalid)"
    and q: "\<forall>x \<in> set (map (clean_message sample_lib ?cfg)
                   (filter (\<lambda>m. fst (validate_message sample_lib ?cfg m))
                      [duplicate_first, duplicate_second])).
              truthy (msg_id x)
              \<and> (\<exists>first. find (\<lambda>m. py_eq (msg_id m) (msg_id x))
                     (map (clean_message sample_lib ?cfg)
                        (filter (\<lambda>m. fst (validate_message sample_lib ?cfg m))
                           [duplicate_first, duplicate_second])) = Some first
                   \<and> filter (\<lambda>m. py_eq (msg_id m) (msg_id x)) out = [first])"
    by blast
  from q have "\<exists>first. find (\<lambda>m. py_eq (msg_id m) (msg_id ?c1)) [?c1, ?c2] = Some first
                   \<and> filter (\<lambda>m. py_eq (msg_id m) (msg_id ?c1)) out = [first]"
    unfolding cleaned by simp
  then have "filter (\<lambda>m. py_eq (msg_id m) (PInt 5)) out = [?c1]"
    by (simp add: duplicates_ids)
  with o have a: "\<exists>out invalid.
         validate_and_clean_batch sample_lib ?cfg [duplicate_first, duplicate_second] = Inr (out, invalid)
         \<and> filter (\<lambda>m. py_eq (msg_id m) (PInt 5)) out = [?c1]"
    by blast
  have hyp: "\<forall>x \<in> set [duplicate_first, duplicate_second]. truthy (msg_id x) \<longrightarrow> hashable (msg_id x)"
    by (simp add: raw_ids)
  with inst obtain out2 where
    o2: "remove_duplicates_from_list ?cfg [duplicate_first, duplicate_second] = Inr out2"
    and q2: "\<forall>x \<in> set [duplicate_first, duplicate_second]. truthy (msg_id x) \<longrightarrow>
               (\<exists>first. find (\<lambda>m. py_eq (msg_id m) (msg_id x)) [duplicate_first, duplicate_second]
                   = Some first
                  \<and> filter (\<lambda>m. py_eq (msg_id m) (msg_id x)) out2 = [first])"
    by blast
  from q2 have "filter (\<lambda>m. py_eq (msg_id m) (PInt 5)) out2 = [duplicate_first]"
    by (simp add: raw_ids)
  with o2 have b: "\<exists>out. remove_duplicates_from_list ?cfg [duplicate_first, duplicate_second] = Inr out
         \<and> filter (\<lambda>m. py_eq (msg_id m) (PInt 5)) out = [duplicate_first]"
    by blast
  from on a b show ?thesis by blast
qed

subsection \<open>Content filter\<close>

lemma apply_filters_true_iff:
  "apply_filters lib m cfg = Inr True \<longleftrightarrow>
     (\<forall>kv \<in> set cfg. \<forall>f. map_of (filters lib) (fst kv) = Some f \<longrightarrow> f m (snd kv) = Inr True)"
proof (induction cfg)
  case Nil
  then show ?case by simp
next
  case (Cons kv cfg)
  obtain k v where kv: "kv = (k, v)" by (cases kv)
  show ?case
  proof (cases "map_of (filters lib) k")
    case None
    with Cons kv show ?thesis by simp
  next
    case (Some f)
    with Cons kv show ?thesis
      by (cases "f m v") (auto split: bool.splits)
  qed
qed

lemma apply_filters_short_circuit:
  assumes "\<forall>kv \<in> set pre. \<forall>f. map_of (filters lib) (fst kv) = Some f \<longrightarrow> f m (snd kv) = Inr True"
    and "map_of (filters lib) k = Some f" and "f m v = Inr False"
  shows "apply_filters lib m (pre @ (k, v) # post) = Inr False"
  using assms
proof (induction pre)
  case Nil
  then show ?case by simp
next
  case (Cons kv pre)
  obtain k' v' where kv: "kv = (k', v')" by (cases kv)
  from Cons have ih: "apply_filters lib m (pre @ (k, v) # post) = Inr False" by simp
  show ?case
  proof (cases "map_of (filters lib) k'")
    case None
    with ih kv show ?thesis by simp
  next
    case (Some g)
    with Cons.prems(1) kv have "g m v' = Inr True" by simp
    with Some ih kv show ?thesis by simp
  qed
qed

lemma empty_values_pass:
  "filter_by_media_type m (PList []) = Inr True"
  "filter_by_text_patterns lib m (PList []) = Inr True"
  "filter_by_date_range lib m (PDict []) = Inr True"
  "filter_by_sender m (PList []) = Inr True"
  "filter_by_length m (PInt 0) = Inr True"
  "filter_by_links m PNone = Inr True"
  "filter_by_mentions m PNone = Inr True"
  "filter_by_forwarded m PNone = Inr True"
  "filter_by_edited m PNone = Inr True"
  by (simp_all add: filter_by_media_type_def filter_by_text_patterns_def filter_by_date_range_def
      filter_by_sender_def filter_by_length_def filter_by_links_def filter_by_mentions_def
      filter_by_forwarded_def filter_by_edited_def)

lemma filters_lookup:
  "map_of (filters lib) ''min_length'' = Some filter_by_length"
  "map_of (filters lib) ''has_links'' = Some filter_by_links"
  by (simp_all add: filters_def)

lemma url_long: "url_search ''x http://example.com''"
  by (simp add: then_nonspace_def py_isspace_def)

lemma url_short: "url_search ''www.a''"
  by (simp add: then_nonspace_def py_isspace_def)

lemma length_short: "filter_by_length short_link_message (PInt 10) = Inr False"
  by (simp add: filter_by_length_def short_link_message_def dict_get_def)

lemma length_long: "filter_by_length long_link_message (PInt 10) = Inr True"
  by (simp add: filter_by_length_def long_link_message_def dict_get_def)

lemma links_long: "filter_by_links long_link_message (PBool True) = Inr True"
  by (simp add: filter_by_links_def long_link_message_def dict_get_def url_long del: url_search.simps)

lemma example_reject: "apply_filters lib short_link_message length_and_links = Inr False"
  by (simp add: length_and_links_def filters_lookup length_short)

lemma example_accept: "apply_filters lib long_link_message length_and_links = Inr True"
  by (simp add: length_and_links_def filters_lookup length_long links_long)

lemma apply_filters_restrict:
  "apply_filters lib m cfg
     = apply_filters lib m (filter (\<lambda>kv. fst kv \<in> set (map fst (filters lib))) cfg)"
proof (induction cfg)
  case Nil
  then show ?case by simp
next
  case (Cons kv cfg)
  obtain k v where kv: "kv = (k, v)" by (cases kv)
  show ?case
  proof (cases "map_of (filters lib) k")
    case None
    then have "k \<notin> set (map fst (filters lib))" by (simp add: map_of_eq_None_iff)
    with None Cons kv show ?thesis by simp
  next
    case (Some f)
    then have "k \<in> set (map fst (filters lib))"
      by (metis map_of_eq_None_iff option.distinct(1) set_map)
    with Some Cons kv show ?thesis by (auto split: sum.splits bool.splits)
  qed
qed

lemma filter_names:
  "map fst (filters lib) =
     [''media_types'', ''text_patterns'', ''date_range'', ''sender_ids'', ''min_length'',
      ''has_links'', ''has_mentions'', ''is_forwarded'', ''is_edited'']"
  by (simp add: filters_def)


text \<open>
  Claim C7.  \<open>apply_filters\<close> returns true exactly when every recognised filter key
  present in the configuration has its predicate return true on the message; it is a
  pure conjunction that stops at the first predicate returning false, whatever follows;
  a predicate given an empty value (empty list, empty date range, zero length,
  \<^verbatim>\<open>None\<close>) passes, and the empty configuration accepts every message.  With
  \<^verbatim>\<open>min_length=10\<close> and \<^verbatim>\<open>has_links=True\<close>, the 5-character link \<^verbatim>\<open>www.a\<close> is
  rejected and the 20-character text \<^verbatim>\<open>x http://example.com\<close> is accepted.
\<close>

theorem apply_filters_conjunction:
  "(apply_filters lib m cfg = Inr True \<longleftrightarrow>
      (\<forall>kv \<in> set cfg. \<forall>f. map_of (filters lib) (fst kv) = Some f \<longrightarrow> f m (snd kv) = Inr True))
   \<and> ((\<forall>kv \<in> set pre. \<forall>f. map_of (filters lib) (fst kv) = Some f \<longrightarrow> f m (snd kv) = Inr True)
        \<and> map_of (filters lib) k = Some g \<and> g m v = Inr False
        \<longrightarrow> apply_filters lib m (pre @ (k, v) # post) = Inr False)
   \<and> apply_filters lib m [] = Inr True
   \<and> filter_by_media_type m (PList []) = Inr True
   \<and> filter_by_text_patterns lib m (PList []) = Inr True
   \<and> filter_by_date_range lib m (PDict []) = Inr True
   \<and> filter_by_sender m (PList []) = Inr True
   \<and> filter_by_length m (PInt 0) = Inr True
   \<and> filter_by_links m PNone = Inr True
   \<and> filter_by_mentions m PNone = Inr True
   \<and> filter_by_forwarded m PNone = Inr True
   \<and> filter_by_edited m PNone = Inr True
   \<and> length ''www.a'' = 5 \<and> url_search ''www.a''
   \<and> apply_filters lib short_link_message length_and_links = Inr False
   \<and> length ''x http://example.com'' = 20
   \<and> apply_filters lib long_link_message length_and_links = Inr True"
proof -
  have sc: "(\<forall>kv \<in> set pre. \<forall>f. map_of (filters lib) (fst kv) = Some f \<longrightarrow> f m (snd kv) = Inr True)
        \<and> map_of (filters lib) k = Some g \<and> g m v = Inr False
        \<longrightarrow> apply_filters lib m (pre @ (k, v) # post) = Inr False"
    using apply_filters_short_circuit[of pre lib m k g v post] by blast
  show ?thesis
    using apply_filters_true_iff[of lib m cfg] sc example_reject[of lib] example_accept[of lib] url_short
    by (simp add: empty_values_pass del: url_search.simps)
qed

text \<open>Claim C7 on the example records: the accepted one through the equivalence, the
  rejected one through the short-circuit at \<^verbatim>\<open>min_length\<close>.\<close>

theorem apply_filters_conjunction_witness:
  "apply_filters sample_lib long_link_message length_and_links = Inr True
   \<and> apply_filters sample_lib short_link_message
        ([] @ (''min_length'', PInt 10) # [(''has_links'', PBool True)]) = Inr False"
proof -
  have a: "\<forall>kv \<in> set length_and_links. \<forall>f.
             map_of (filters sample_lib) (fst kv) = Some f \<longrightarrow> f long_link_message (snd kv) = Inr True"
    by (simp add: length_and_links_def filters_lookup length_long links_long)
  have b: "(\<forall>kv \<in> set []. \<forall>f. map_of (filters sample_lib) (fst kv) = Some f
              \<longrightarrow> f short_link_message (snd kv) = Inr True)
           \<and> map_of (filters sample_lib) ''min_length'' = Some filter_by_length
           \<and> filter_by_length short_link_message (PInt 10) = Inr False"
    by (simp add: filters_lookup length_short)
  from a have "apply_filters sample_lib long_link_message length_and_links = Inr True"
    using apply_filters_conjunction[of sample_lib long_link_message length_and_links]
    by blast
  moreover from b have "apply_filters sample_lib short_link_message
        ([] @ (''min_length'', PInt 10) # [(''has_links'', PBool True)]) = Inr False"
    using apply_filters_conjunction[of sample_lib short_link_message _ "[]" "''min_length''"
        filter_by_length "PInt 10" "[(''has_links'', PBool True)]"]
    by blast
  ultimately show ?thesis by blast
qed

text \<open>
  Claim C9.  \<open>apply_filters\<close> gives the same result on a configuration and on its
  restriction to the nine recognised filter names: any other key is skipped.
\<close>

theorem apply_filters_ignores_unrecognised:
  "apply_filters lib m cfg
     = apply_filters lib m (filter (\<lambda>kv. fst kv \<in> set (map fst (filters lib))) cfg)
   \<and> map fst (filters lib) =
       [''media_types'', ''text_patterns'', ''date_range'', ''sender_ids'', ''min_length'',
        ''has_links'', ''has_mentions'', ''is_forwarded'', ''is_edited'']"
  using apply_filters_restrict[of lib m cfg] filter_names[of lib] by blast

subsection \<open>Resuming an export\<close>

lemma loop_step_resume:
  assumes "opt_resume opts"
  shows "loop_step env opts (PInt c) s p =
           (case p of
              Yield m \<Rightarrow> if c \<noteq> 0 \<and> tl_id m \<le> c then (s, None) else loop_step env opts PNone s p
            | _ \<Rightarrow> loop_step env opts PNone s p)"
  using assms by (cases p) (auto simp: loop_step_def)

lemma download_loop_resume:
  assumes "opt_resume opts"
    and "c \<noteq> 0 \<or> (\<forall>m. Yield m \<in> set pulled \<longrightarrow> 0 < tl_id m)"
  shows "download_loop env opts (PInt c) s pulled
           = download_loop env opts PNone s
               (filter (\<lambda>p. case p of Yield m \<Rightarrow> c < tl_id m | _ \<Rightarrow> True) pulled)"
  using assms(2)
proof (induction pulled arbitrary: s)
  case Nil
  then show ?case by simp
next
  case (Cons p pulled)
  from Cons.prems have rest: "c \<noteq> 0 \<or> (\<forall>m. Yield m \<in> set pulled \<longrightarrow> 0 < tl_id m)" by auto
  note ih = Cons.IH[OF rest]
  show ?case
  proof (cases p)
    case (Yield m)
    show ?thesis
    proof (cases "tl_id m \<le> c")
      case True
      with Cons.prems Yield have "c \<noteq> 0" by auto
      with True Yield ih show ?thesis
        by (simp add: loop_step_resume[OF assms(1)])
    next
      case False
      with Yield ih show ?thesis
        by (simp add: loop_step_resume[OF assms(1)] split: prod.splits option.splits)
    qed
  next
    case YieldNone
    with ih show ?thesis
      by (simp add: loop_step_resume[OF assms(1)] split: prod.splits option.splits)
  next
    case (Raise e)
    with ih show ?thesis
      by (simp add: loop_step_resume[OF assms(1)] split: prod.splits option.splits)
  qed
qed

lemma download_loop_accumulates:
  assumes "opt_filters opts = []"
    and "int (length (st_batch s)) + int (length ms) < opt_batch_size opts"
  shows "download_loop env opts PNone s (map Yield ms)
           = (s\<lparr>st_batch := st_batch s @ map message_dict_of ms\<rparr>, None)"
  using assms(2)
proof (induction ms arbitrary: s)
  case Nil
  then show ?case by simp
next
  case (Cons m ms)
  let ?s1 = "s\<lparr>st_batch := st_batch s @ [message_dict_of m]\<rparr>"
  from Cons.prems have step: "loop_step env opts PNone s (Yield m) = (?s1, None)"
    by (simp add: loop_step_def assms(1))
  from Cons.prems have "int (length (st_batch ?s1)) + int (length ms) < opt_batch_size opts"
    by simp
  from Cons.IH[OF this] step show ?case by simp
qed

lemma filter_upto_above: "filter (\<lambda>i. (50::int) < i) [1..100] = [51..100]"
proof -
  have "[1..100] = [1..50] @ [51..(100::int)]"
    using upto_split2[of 1 50 100] by simp
  moreover have "filter (\<lambda>i. (50::int) < i) [1..50] = []"
    by (rule filter_False) auto
  moreover have "filter (\<lambda>i. (50::int) < i) [51..100] = [51..100]"
    by (rule filter_True) auto
  ultimately show ?thesis by simp
qed

lemma sample_pulled_filter:
  "filter (\<lambda>p. case p of Yield m \<Rightarrow> 50 < tl_id m | _ \<Rightarrow> True) (map (\<lambda>i. Yield (sample_pull i)) [1..100])
     = map Yield (map sample_pull [51..100])"
proof -
  have "filter (\<lambda>p. case p of Yield m \<Rightarrow> 50 < tl_id m | _ \<Rightarrow> True) (map (\<lambda>i. Yield (sample_pull i)) [1..100])
          = map (\<lambda>i. Yield (sample_pull i)) (filter (\<lambda>i. (50::int) < i) [1..100])"
    by (simp add: filter_map comp_def sample_pull_def)
  then show ?thesis by (simp add: filter_upto_above)
qed

lemma check_resume_point_at: "check_resume_point (checkpoint_at c) 42 = PInt c"
  by (simp add: check_resume_point_def checkpoint_at_def save_progress_def load_progress_def
      dict_has_def dict_get_def)

lemma process_batch_plain:
  "\<not> opt_download_media opts \<Longrightarrow> process_batch env opts fs b = (b, fs, [])"
  by (simp add: process_batch_def)

lemma finish_export_messages:
  "st_messages (fst (finish_export env opts s)) = st_messages (flush_batch env opts s)"
  by (simp add: finish_export_def Let_def split: sum.splits prod.splits option.splits)

lemma download_chat_messages:
  assumes "cl_resolve_error env = None" and "opt_filters opts = []"
    and "opt_config_filters opts = []" and "opt_days_limit opts = None"
    and "download_loop env opts (if opt_resume opts then check_resume_point store (opt_chat_id opts) else PNone)
             (initial_state store fs) pulled = (s, None)"
  shows "download_chat env opts store fs pulled = finish_export env opts s"
proof -
  have e: "opts\<lparr>opt_filters := []\<rparr> = opts" using assms(2) by (cases opts) simp
  from assms show ?thesis
    by (simp add: download_chat_def Let_def get_filter_summary_def e)
qed

lemma resume_example:
  "st_messages (fst (download_chat sample_client (sample_options 1000) (checkpoint_at 50) Map.empty
       (map (\<lambda>i. Yield (sample_pull i)) [1..100])))
     = map (\<lambda>i. message_dict_of (sample_pull i)) [51..100]"
proof -
  let ?opts = "sample_options 1000"
  let ?s0 = "initial_state (checkpoint_at 50) Map.empty"
  have r: "opt_resume ?opts" "opt_chat_id ?opts = 42" "opt_filters ?opts = []"
    "opt_batch_size ?opts = 1000" "\<not> opt_download_media ?opts"
    by (simp_all add: sample_options_def)
  have "download_loop sample_client ?opts (PInt 50) ?s0 (map (\<lambda>i. Yield (sample_pull i)) [1..100])
          = download_loop sample_client ?opts PNone ?s0 (map Yield (map sample_pull [51..100]))"
    using download_loop_resume[OF r(1), of 50 "map (\<lambda>i. Yield (sample_pull i)) [1..100]"
        sample_client ?s0]
    by (simp add: sample_pulled_filter)
  also have "\<dots> = (?s0\<lparr>st_batch := st_batch ?s0 @ map message_dict_of (map sample_pull [51..100])\<rparr>, None)"
    by (rule download_loop_accumulates) (simp_all add: r initial_state_def)
  finally have loop: "download_loop sample_client ?opts
      (if opt_resume ?opts then check_resume_point (checkpoint_at 50) (opt_chat_id ?opts) else PNone)
      ?s0 (map (\<lambda>i. Yield (sample_pull i)) [1..100])
        = (?s0\<lparr>st_batch := st_batch ?s0 @ map message_dict_of (map sample_pull [51..100])\<rparr>, None)"
    by (simp add: r check_resume_point_at)
  have c: "cl_resolve_error sample_client = None" "opt_config_filters ?opts = []"
    "opt_days_limit ?opts = None"
    by (simp_all add: sample_client_def sample_options_def)
  show ?thesis
    unfolding download_chat_messages[OF c(1) r(3) c(2) c(3) loop] finish_export_messages
    by (simp add: flush_batch_def process_batch_plain[OF r(5)] initial_state_def comp_def)
qed


text \<open>
  Claim C2.  When the export resumes with cursor \<open>c\<close>, the loop behaves exactly as the
  loop without a cursor on the pulled sequence with every record of id at most \<open>c\<close>
  removed: those records are neither filtered, batched, committed nor counted, and the
  others are processed as usual.  (A cursor of 0 is falsy in the code and skips nothing;
  message ids are positive, so that agrees.)  For the chat with ids 1 to 100 and a
  checkpoint at 50, the records processed are those with ids 51 to 100.
\<close>

theorem resume_skips_committed:
  assumes "opt_resume opts"
    and "c \<noteq> 0 \<or> (\<forall>m. Yield m \<in> set pulled \<longrightarrow> 0 < tl_id m)"
  shows "download_loop env opts (PInt c) s pulled
           = download_loop env opts PNone s
               (filter (\<lambda>p. case p of Yield m \<Rightarrow> c < tl_id m | _ \<Rightarrow> True) pulled)
         \<and> check_resume_point (checkpoint_at 50) 42 = PInt 50
         \<and> st_messages (fst (download_chat sample_client (sample_options 1000) (checkpoint_at 50)
              Map.empty (map (\<lambda>i. Yield (sample_pull i)) [1..100])))
             = map (\<lambda>i. message_dict_of (sample_pull i)) [51..100]"
  using download_loop_resume[OF assms, of env s] resume_example check_resume_point_at[of 50]
  by blast

text \<open>Claim C2 on two pulled records with the cursor at 1.\<close>

theorem resume_skips_committed_witness:
  "opt_resume (sample_options 2)
   \<and> (1::int) \<noteq> 0
   \<and> download_loop sample_client (sample_options 2) (PInt 1) (initial_state Map.empty Map.empty)
        [Yield (sample_pull 1), Yield (sample_pull 2)]
       = download_loop sample_client (sample_options 2) PNone (initial_state Map.empty Map.empty)
           [Yield (sample_pull 2)]"
proof -
  have r: "opt_resume (sample_options 2)" by (simp add: sample_options_def)
  have t: "tl_id (sample_pull 1) = 1" "tl_id (sample_pull 2) = 2" by (simp_all add: sample_pull_def)
  show ?thesis
    using resume_skips_committed[OF r, of 1 "[Yield (sample_pull 1), Yield (sample_pull 2)]"
        sample_client "initial_state Map.empty Map.empty"] r
    by (simp add: t del: download_loop.simps)
qed

subsection \<open>Checkpoints and output in the export\<close>

lemma sample_dicts:
  "message_dict_of (sample_pull i) = sample_message i ''hello'' @ [(''sender_info'', PDict [])]"
  by (simp add: message_dict_of_def sample_pull_def sample_message_def)

lemma sample_last_id: "map_of (message_dict_of (sample_pull i)) ''id'' = Some (PInt i)"
  by (simp add: sample_dicts sample_message_def)

lemma interrupted_run:
  "download_loop sample_client (sample_options 2) PNone (initial_state Map.empty Map.empty) interrupted_pull
     = (\<lparr>st_messages = [message_dict_of (sample_pull 1), message_dict_of (sample_pull 2)],
         st_total = 2, st_batch = [],
         st_resume = save_progress ''2025-07-21T00:00:00'' Map.empty 42 (PInt 2) 2 [(''chat_title'', PStr ''chat'')],
         st_media = Map.empty,
         st_trace = [SavedProgress 42 (PInt 2) 2]\<rparr>, Some OtherError)"
  by (simp add: interrupted_pull_def loop_step_def commit_batch_def process_batch_def
      sample_options_def sample_client_def initial_state_def sample_last_id)
     (simp add: numeral_2_eq_2)

lemma sample_preamble:
  "cl_resolve_error sample_client = None" "opt_filters (sample_options n) = []"
  "opt_config_filters (sample_options n) = []" "opt_days_limit (sample_options n) = None"
  "opt_resume (sample_options n)" "opt_chat_id (sample_options n) = 42"
  by (simp_all add: sample_client_def sample_options_def)

lemma interrupted_export:
  "download_chat sample_client (sample_options 2) Map.empty Map.empty interrupted_pull
     = (\<lparr>st_messages = [message_dict_of (sample_pull 1), message_dict_of (sample_pull 2)],
         st_total = 2, st_batch = [],
         st_resume = save_progress ''2025-07-21T00:00:00'' Map.empty 42 (PInt 2) 2 [(''chat_title'', PStr ''chat'')],
         st_media = Map.empty,
         st_trace = [SavedProgress 42 (PInt 2) 2]\<rparr>, Inl OtherError)"
proof -
  have e: "(sample_options 2)\<lparr>opt_filters := []\<rparr> = sample_options 2"
    by (simp add: sample_options_def)
  have c: "check_resume_point Map.empty 42 = PNone"
    by (simp add: check_resume_point_def load_progress_def)
  show ?thesis
    using interrupted_run
    by (simp add: download_chat_def Let_def sample_preamble get_filter_summary_def e c)
qed

lemma saved_cursor:
  "check_resume_point
     (save_progress ''2025-07-21T00:00:00'' Map.empty 42 (PInt 2) 2 [(''chat_title'', PStr ''chat'')]) 42
     = PInt 2"
  by (simp add: check_resume_point_def load_progress_def save_progress_def dict_has_def dict_get_def)

lemma resumed_run:
  "download_loop sample_client (sample_options 2) (PInt 2) (initial_state store Map.empty) resumed_pull
     = (\<lparr>st_messages = [], st_total = 0, st_batch = [message_dict_of (sample_pull 3)],
         st_resume = store, st_media = Map.empty, st_trace = []\<rparr>, None)"
  by (simp add: resumed_pull_def loop_step_def sample_options_def sample_client_def
      initial_state_def sample_pull_def)

lemma sample_record_valid:
  "0 < i \<Longrightarrow>
   fst (validate_message sample_lib default_validator_config (message_dict_of (sample_pull i)))"
  using sample_date_ok
  by (simp add: validate_message_def sample_dicts sample_message_def default_validator_config_def
      dict_has_def dict_get_def date_check_fails_def)

lemma sample_record_id:
  "msg_id (clean_message sample_lib default_validator_config (message_dict_of (sample_pull i))) = PInt i"
  by (simp add: clean_message_id) (simp add: sample_dicts sample_message_def dict_get_def)

lemma sample_record_cleaned:
  "validate_and_clean_batch sample_lib default_validator_config [message_dict_of (sample_pull 3)]
     = Inr ([clean_message sample_lib default_validator_config (message_dict_of (sample_pull 3))], [])"
proof -
  have "remove_duplicates default_validator_config" by (simp add: default_validator_config_def)
  then have d: "remove_duplicates_from_list default_validator_config
            [clean_message sample_lib default_validator_config (message_dict_of (sample_pull 3))]
          = Inr [clean_message sample_lib default_validator_config (message_dict_of (sample_pull 3))]"
    by (simp add: remove_duplicates_from_list_def sample_record_id Let_def)
  show ?thesis
    by (simp add: validate_and_clean_batch_eq validate_loop_invalid sample_record_valid d
        del: validate_loop.simps)
qed

lemma resumed_export:
  "download_chat sample_client (sample_options 2)
     (save_progress ''2025-07-21T00:00:00'' Map.empty 42 (PInt 2) 2 [(''chat_title'', PStr ''chat'')])
     Map.empty resumed_pull
   = (\<lparr>st_messages = [message_dict_of (sample_pull 3)], st_total = 1,
       st_batch = [message_dict_of (sample_pull 3)],
       st_resume = Map.empty, st_media = Map.empty,
       st_trace = [WroteOutput ''json''
                     [clean_message sample_lib default_validator_config
                        (message_dict_of (sample_pull 3))],
                   WroteValidationReport, MarkedCompleted 42]\<rparr>,
      Inr (ExportResult 1 1 0))"
proof -
  let ?store = "save_progress ''2025-07-21T00:00:00'' Map.empty 42 (PInt 2) 2 [(''chat_title'', PStr ''chat'')]"
  have l: "download_loop sample_client (sample_options 2)
       (if opt_resume (sample_options 2) then check_resume_point ?store (opt_chat_id (sample_options 2)) else PNone)
       (initial_state ?store Map.empty) resumed_pull
     = (\<lparr>st_messages = [], st_total = 0, st_batch = [message_dict_of (sample_pull 3)],
         st_resume = ?store, st_media = Map.empty, st_trace = []\<rparr>, None)"
    by (simp add: sample_preamble saved_cursor resumed_run)
  have o: "cl_lib sample_client = sample_lib" "opt_validation (sample_options 2) = default_validator_config"
    "opt_export_formats (sample_options 2) = [''json'']" "cl_write_report sample_client = None"
    "cl_unlink sample_client = None" "cl_write_format sample_client = (\<lambda>fmt data. None)"
    "\<not> opt_download_media (sample_options 2)"
    by (simp_all add: sample_client_def sample_options_def)
  have m: "mark_completed ?store 42 = Map.empty"
    by (simp add: mark_completed_def save_progress_def)
  have s: "?store 42 \<noteq> None" by (simp add: save_progress_def)
  show ?thesis
    unfolding download_chat_messages[OF sample_preamble(1-4) l]
    by (simp add: finish_export_def flush_batch_def process_batch_plain o sample_preamble
        sample_record_cleaned format_handlers_def m s Let_def)
qed

lemma complete_run:
  "download_loop env_any (sample_options 2) PNone (initial_state Map.empty Map.empty)
     [Yield (sample_pull 1), Yield (sample_pull 2)]
     = (\<lparr>st_messages = [message_dict_of (sample_pull 1), message_dict_of (sample_pull 2)],
         st_total = 2, st_batch = [],
         st_resume = save_progress (cl_now env_any) Map.empty 42 (PInt 2) 2 [(''chat_title'', PStr ''chat'')],
         st_media = Map.empty,
         st_trace = [SavedProgress 42 (PInt 2) 2]\<rparr>, None)"
  if "cl_lib env_any = sample_lib"
  using that
  by (simp add: loop_step_def commit_batch_def process_batch_def
      sample_options_def initial_state_def sample_last_id)
     (simp add: numeral_2_eq_2)

text \<open>
  An export can also end after its output was written: when the validation report
  cannot be written, the exception leaves \<^verbatim>\<open>download_chat\<close> with the output files
  written and the checkpoint still in place.
\<close>

lemma abort_after_output:
  "download_chat report_fails_client (sample_options 2) Map.empty Map.empty
     [Yield (sample_pull 1), Yield (sample_pull 2)]
   = (\<lparr>st_messages = [message_dict_of (sample_pull 1), message_dict_of (sample_pull 2)],
       st_total = 2, st_batch = [],
       st_resume = save_progress ''2025-07-21T00:00:00'' Map.empty 42 (PInt 2) 2
                     [(''chat_title'', PStr ''chat'')],
       st_media = Map.empty,
       st_trace = [SavedProgress 42 (PInt 2) 2,
                   WroteOutput ''json''
                     [clean_message sample_lib default_validator_config
                        (message_dict_of (sample_pull 1)),
                      clean_message sample_lib default_validator_config
                        (message_dict_of (sample_pull 2))]]\<rparr>,
      Inl OtherError)"
proof -
  let ?env = report_fails_client
  have o: "cl_lib ?env = sample_lib" "cl_now ?env = ''2025-07-21T00:00:00''"
    "cl_resolve_error ?env = None" "cl_write_report ?env = Some OtherError"
    "cl_write_format ?env = (\<lambda>fmt data. None)"
    "opt_validation (sample_options 2) = default_validator_config"
    "opt_export_formats (sample_options 2) = [''json'']"
    by (simp_all add: report_fails_client_def sample_client_def sample_options_def)
  have c: "check_resume_point Map.empty 42 = PNone"
    by (simp add: check_resume_point_def load_progress_def)
  have l: "download_loop ?env (sample_options 2)
       (if opt_resume (sample_options 2)
        then check_resume_point Map.empty (opt_chat_id (sample_options 2)) else PNone)
       (initial_state Map.empty Map.empty) [Yield (sample_pull 1), Yield (sample_pull 2)]
     = (\<lparr>st_messages = [message_dict_of (sample_pull 1), message_dict_of (sample_pull 2)],
         st_total = 2, st_batch = [],
         st_resume = save_progress (cl_now ?env) Map.empty 42 (PInt 2) 2 [(''chat_title'', PStr ''chat'')],
         st_media = Map.empty,
         st_trace = [SavedProgress 42 (PInt 2) 2]\<rparr>, None)"
    using complete_run[OF o(1)] by (simp add: sample_preamble c)
  have "remove_duplicates default_validator_config" by (simp add: default_validator_config_def)
  then have d: "remove_duplicates_from_list default_validator_config
            [clean_message sample_lib default_validator_config (message_dict_of (sample_pull 1)),
             clean_message sample_lib default_validator_config (message_dict_of (sample_pull 2))]
          = Inr [clean_message sample_lib default_validator_config (message_dict_of (sample_pull 1)),
                 clean_message sample_lib default_validator_config (message_dict_of (sample_pull 2))]"
    by (simp add: remove_duplicates_from_list_def sample_record_id Let_def)
  have v: "validate_and_clean_batch sample_lib default_validator_config
             [message_dict_of (sample_pull 1), message_dict_of (sample_pull 2)]
           = Inr ([clean_message sample_lib default_validator_config (message_dict_of (sample_pull 1)),
                   clean_message sample_lib default_validator_config (message_dict_of (sample_pull 2))], [])"
    by (simp add: validate_and_clean_batch_eq validate_loop_invalid sample_record_valid d
        del: validate_loop.simps)
  show ?thesis
    unfolding download_chat_messages[OF o(3) sample_preamble(2-4) l]
    by (simp add: finish_export_def flush_batch_def o v format_handlers_def Let_def)
qed

text \<open>
  Claim C1 on the code.  With batches of two records and no checkpoint, the source
  yields the records 1 and 2 and then raises.  The export ends with that exception; the
  only thing it did to the outside world is the checkpoint write for record 2: no
  output was written, and the two records were held in memory only.  The next run reads
  the cursor 2, skips the records 1 and 2, writes an output that holds record 3 alone,
  and deletes the checkpoint.  So the checkpoint was advanced before the batch's
  records were written anywhere, and the abort left a checkpoint and no partial output.
\<close>

theorem download_chat_checkpoint_without_output:
  "snd (download_chat sample_client (sample_options 2) Map.empty Map.empty interrupted_pull)
     = Inl OtherError
   \<and> st_trace (fst (download_chat sample_client (sample_options 2) Map.empty Map.empty
        interrupted_pull)) = [SavedProgress 42 (PInt 2) 2]
   \<and> check_resume_point
        (st_resume (fst (download_chat sample_client (sample_options 2) Map.empty Map.empty
           interrupted_pull))) 42 = PInt 2
   \<and> download_chat sample_client (sample_options 2)
        (st_resume (fst (download_chat sample_client (sample_options 2) Map.empty Map.empty
           interrupted_pull)))
        Map.empty resumed_pull
       = (\<lparr>st_messages = [message_dict_of (sample_pull 3)], st_total = 1,
           st_batch = [message_dict_of (sample_pull 3)],
           st_resume = Map.empty, st_media = Map.empty,
           st_trace = [WroteOutput ''json''
                         [clean_message sample_lib default_validator_config
                            (message_dict_of (sample_pull 3))],
                       WroteValidationReport, MarkedCompleted 42]\<rparr>,
          Inr (ExportResult 1 1 0))
   \<and> msg_id (clean_message sample_lib default_validator_config (message_dict_of (sample_pull 3)))
       = PInt 3"
  using resumed_export saved_cursor sample_record_id
  by (simp add: interrupted_export)

subsection \<open>Cleaning does not modify its argument\<close>

lemma store_item_frame:
  "n \<le> a \<Longrightarrow> take n (store_item h a k v) = take n h \<and> length (store_item h a k v) = length h"
  by (simp add: store_item_def split: option.splits)

lemma delete_item_frame:
  "n \<le> a \<Longrightarrow> take n (delete_item h a k) = take n h \<and> length (delete_item h a k) = length h"
  by (simp add: delete_item_def split: option.splits)

lemma clean_text_step_frame:
  "n \<le> c \<Longrightarrow> take n (clean_text_step lib cfg h c) = take n h
     \<and> length (clean_text_step lib cfg h c) = length h"
  by (simp add: clean_text_step_def store_item_frame split: option.splits hval.splits)

lemma clean_date_step_frame:
  "n \<le> c \<Longrightarrow> take n (clean_date_step lib h c) = take n h
     \<and> length (clean_date_step lib h c) = length h"
  by (simp add: clean_date_step_def store_item_frame split: option.splits hval.splits)

lemma clean_sender_step_frame:
  "n \<le> c \<Longrightarrow> n \<le> length h \<Longrightarrow> take n (clean_sender_step h c) = take n h
     \<and> length h \<le> length (clean_sender_step h c)"
  by (simp add: clean_sender_step_def alloc_def store_item_frame split: option.splits hval.splits)

lemma clean_media_step_frame:
  "n \<le> c \<Longrightarrow> take n (clean_media_step h c k) = take n h
     \<and> length (clean_media_step h c k) = length h"
  by (simp add: clean_media_step_def delete_item_frame split: option.splits)

lemma clean_media_fold_frame:
  "n \<le> c \<Longrightarrow> take n (foldl (\<lambda>hh media_key. clean_media_step hh c media_key) h ks) = take n h
     \<and> length (foldl (\<lambda>hh media_key. clean_media_step hh c media_key) h ks) = length h"
  by (induction ks arbitrary: h) (simp_all add: clean_media_step_frame)

lemma clean_message_h_frame:
  assumes "clean_message_h lib cfg h a = Inr (h', c)"
  shows "take (length h) h' = h" and "c = length h" and "c < length h'"
proof -
  from assms obtain items where it: "heap_dict h a = Some items"
    by (auto simp: clean_message_h_def split: option.splits)
  let ?n = "length h"
  let ?h0 = "h @ [HDict items]"
  let ?h1 = "clean_text_step lib cfg ?h0 ?n"
  let ?h2 = "clean_date_step lib ?h1 ?n"
  let ?h3 = "clean_sender_step ?h2 ?n"
  let ?h4 = "foldl (\<lambda>hh media_key. clean_media_step hh ?n media_key) ?h3
               [''photo'', ''video'', ''audio'', ''document'', ''sticker'']"
  from assms it have eq: "h' = ?h4" "c = ?n"
    by (auto simp: clean_message_h_def alloc_def Let_def)
  have f1: "take ?n ?h1 = h" "length ?h1 = Suc ?n"
    using clean_text_step_frame[of ?n ?n lib cfg ?h0] by simp_all
  have f2: "take ?n ?h2 = h" "length ?h2 = Suc ?n"
    using clean_date_step_frame[of ?n ?n lib ?h1] f1 by simp_all
  have f3: "take ?n ?h3 = h" "Suc ?n \<le> length ?h3"
    using clean_sender_step_frame[of ?n ?n ?h2] f2 by simp_all
  have f4: "take ?n ?h4 = h" "length ?h4 = length ?h3"
    using clean_media_fold_frame[of ?n ?n ?h3 "[''photo'', ''video'', ''audio'', ''document'', ''sticker'']"] f3
    by (simp_all del: foldl_Cons foldl_Nil)
  from eq f4 show "take (length h) h' = h" by (simp del: foldl_Cons foldl_Nil)
  from eq show "c = length h" by simp
  from eq f3 f4 show "c < length h'" by (simp del: foldl_Cons foldl_Nil)
qed

lemma clean_message_h_total:
  "heap_dict h a \<noteq> None \<Longrightarrow> \<exists>h' c. clean_message_h lib cfg h a = Inr (h', c)"
  by (auto simp: clean_message_h_def Let_def split: prod.splits)

lemma take_take_frame:
  assumes "take (length h1) h2 = h1" and "take (length h) h1 = h" and "length h \<le> length h1"
  shows "take (length h) h2 = h"
proof -
  have "take (length h) (take (length h1) h2) = take (length h) h2"
    using assms(3) by (simp add: min_absorb1)
  with assms(1,2) show ?thesis by simp
qed

lemma validate_loop_h_frame:
  "validate_loop_h lib cfg h batch = (h', r) \<Longrightarrow> take (length h) h' = h \<and> length h \<le> length h'"
proof (induction batch arbitrary: h h' r)
  case Nil
  then show ?case by simp
next
  case (Cons m batch)
  obtain ok err where v: "validate_message_h lib cfg h m = (ok, err)"
    by (cases "validate_message_h lib cfg h m")
  show ?case
  proof (cases ok)
    case False
    let ?h1 = "h @ [HDict [(''message'', m)]]"
    obtain h2 r2 where rec: "validate_loop_h lib cfg ?h1 batch = (h2, r2)"
      by (cases "validate_loop_h lib cfg ?h1 batch")
    from Cons.IH[OF rec] have "take (length ?h1) h2 = ?h1" "length ?h1 \<le> length h2" by simp_all
    then have "take (length h) h2 = h \<and> length h \<le> length h2"
      using take_take_frame[of ?h1 h2 h] by simp
    moreover from Cons.prems v False rec have "h' = h2"
      by (auto simp: alloc_def split: sum.splits prod.splits)
    ultimately show ?thesis by simp
  next
    case True
    show ?thesis
    proof (cases m)
      case (HRef a)
      show ?thesis
      proof (cases "clean_message_h lib cfg h a")
        case (Inl e)
        with Cons.prems v True HRef show ?thesis by simp
      next
        case (Inr p)
        obtain h1 c where p: "p = (h1, c)" by (cases p)
        with Inr have cm: "clean_message_h lib cfg h a = Inr (h1, c)" by simp
        from clean_message_h_frame[OF cm] have f1: "take (length h) h1 = h" "length h < length h1"
          by simp_all
        obtain h2 r2 where rec: "validate_loop_h lib cfg h1 batch = (h2, r2)"
          by (cases "validate_loop_h lib cfg h1 batch")
        from Cons.IH[OF rec] have f2: "take (length h1) h2 = h1" "length h1 \<le> length h2" by simp_all
        from f1 f2 have "take (length h) h2 = h \<and> length h \<le> length h2"
          using take_take_frame[of h1 h2 h] by simp
        moreover from Cons.prems v True HRef cm rec have "h' = h2"
          by (auto split: sum.splits prod.splits)
        ultimately show ?thesis by simp
      qed
    qed (use Cons.prems v True in auto)
  qed
qed

lemma validate_and_clean_batch_h_frame:
  "validate_and_clean_batch_h lib cfg h batch = (h', r) \<Longrightarrow> take (length h) h' = h"
proof -
  assume a: "validate_and_clean_batch_h lib cfg h batch = (h', r)"
  obtain h1 r1 where l: "validate_loop_h lib cfg h batch = (h1, r1)"
    by (cases "validate_loop_h lib cfg h batch")
  with a have "h' = h1"
    by (auto simp: validate_and_clean_batch_h_def split: sum.splits prod.splits if_splits)
  with validate_loop_h_frame[OF l] show ?thesis by simp
qed

lemma reify_frame:
  assumes "heap_closed h" and "take (length h) h' = h"
  shows "val_ok (length h) v \<Longrightarrow> reify n h' v = reify n h v"
proof (induction n arbitrary: v)
  case 0
  then show ?case by (cases v) simp_all
next
  case (Suc n)
  show ?case
  proof (cases v)
    case (HRef a)
    with Suc.prems have a: "a < length h" by simp
    from assms(2) have len: "length h \<le> length h'"
      by (metis length_take min.cobounded1)
    from assms(2) a have same: "h' ! a = h ! a" by (metis nth_take)
    from assms(1) a have ok: "obj_ok (length h) (h ! a)"
      by (simp add: heap_closed_def list_all_length)
    show ?thesis
    proof (cases "h ! a")
      case (HDict d)
      with ok have "\<forall>kv \<in> set d. val_ok (length h) (snd kv)" by (simp add: list_all_iff)
      with Suc.IH have "map (\<lambda>kv. (fst kv, reify n h' (snd kv))) d
                         = map (\<lambda>kv. (fst kv, reify n h (snd kv))) d"
        by simp
      with HRef a len same HDict show ?thesis by simp
    next
      case (HList xs)
      with ok have "\<forall>x \<in> set xs. val_ok (length h) x" by (simp add: list_all_iff)
      with Suc.IH have "map (reify n h') xs = map (reify n h) xs" by simp
      with HRef a len same HList show ?thesis by simp
    qed
  qed simp_all
qed


text \<open>
  Claim C10.  \<open>clean_message\<close> never mutates its argument: it returns a newly
  allocated record, and every object that existed before the call is unchanged
  afterwards, so the argument reads the same to any depth, its nested sender
  information and its media keys included.  \<open>validate_and_clean_batch\<close> likewise
  leaves every object that existed before it unchanged, hence every record of its
  input list.
\<close>

theorem clean_message_frame:
  "(clean_message_h lib cfg h a = Inr (h', c) \<longrightarrow>
      take (length h) h' = h \<and> c = length h \<and> c < length h')
   \<and> (heap_dict h a \<noteq> None \<longrightarrow> (\<exists>h1 c1. clean_message_h lib cfg h a = Inr (h1, c1)))
   \<and> (clean_message_h lib cfg h a = Inr (h', c) \<and> heap_closed h \<and> val_ok (length h) v \<longrightarrow>
        reify n h' v = reify n h v)
   \<and> (validate_and_clean_batch_h lib cfg h batch = (h2, r) \<longrightarrow> take (length h) h2 = h)
   \<and> (validate_and_clean_batch_h lib cfg h batch = (h2, r) \<and> heap_closed h \<and> val_ok (length h) v \<longrightarrow>
        reify n h2 v = reify n h v)"
proof -
  have p1: "clean_message_h lib cfg h a = Inr (h', c) \<longrightarrow>
      take (length h) h' = h \<and> c = length h \<and> c < length h'"
    using clean_message_h_frame[of lib cfg h a h' c] by blast
  have p2: "heap_dict h a \<noteq> None \<longrightarrow> (\<exists>h1 c1. clean_message_h lib cfg h a = Inr (h1, c1))"
    using clean_message_h_total[of h a lib cfg] by blast
  have p3: "clean_message_h lib cfg h a = Inr (h', c) \<and> heap_closed h \<and> val_ok (length h) v \<longrightarrow>
        reify n h' v = reify n h v"
    using clean_message_h_frame(1)[of lib cfg h a h' c] reify_frame[of h h' v n] by blast
  have p4: "validate_and_clean_batch_h lib cfg h batch = (h2, r) \<longrightarrow> take (length h) h2 = h"
    using validate_and_clean_batch_h_frame[of lib cfg h batch h2 r] by blast
  have p5: "validate_and_clean_batch_h lib cfg h batch = (h2, r) \<and> heap_closed h \<and> val_ok (length h) v \<longrightarrow>
        reify n h2 v = reify n h v"
    using validate_and_clean_batch_h_frame[of lib cfg h batch h2 r] reify_frame[of h h2 v n] by blast
  show ?thesis
    by (intro conjI) (rule p1, rule p2, rule p3, rule p4, rule p5)
qed

lemma sample_clean_text: "clean_text sample_lib default_validator_config '' a  b '' = ''a b''"
  by (simp add: clean_text_def sample_lib_def default_validator_config_def py_strip_def
      py_isspace_def is_control_char_def)

lemma sample_heap_clean:
  "clean_message_h sample_lib default_validator_config sample_heap 0 =
     Inr (sample_heap @
            [HDict [(''id'', HInt 1), (''date'', HStr ''1970-01-01T00:00:00''),
                    (''message'', HStr ''a b''), (''sender_info'', HRef 3)],
             HDict [(''id'', HInt 9)]], 2)"
proof -
  let ?cfg = default_validator_config
  let ?o0 = "HDict [(''id'', HInt 1), (''date'', HStr ''2025-07-20''), (''message'', HStr '' a  b ''),
             (''sender_info'', HRef 1), (''photo'', HNone)]"
  let ?o1 = "HDict [(''id'', HInt 9), (''username'', HNone)]"
  let ?c1 = "HDict [(''id'', HInt 1), (''date'', HStr ''2025-07-20''), (''message'', HStr ''a b''),
             (''sender_info'', HRef 1), (''photo'', HNone)]"
  let ?c2 = "HDict [(''id'', HInt 1), (''date'', HStr ''1970-01-01T00:00:00''), (''message'', HStr ''a b''),
             (''sender_info'', HRef 1), (''photo'', HNone)]"
  let ?c3 = "HDict [(''id'', HInt 1), (''date'', HStr ''1970-01-01T00:00:00''), (''message'', HStr ''a b''),
             (''sender_info'', HRef 3), (''photo'', HNone)]"
  let ?c4 = "HDict [(''id'', HInt 1), (''date'', HStr ''1970-01-01T00:00:00''), (''message'', HStr ''a b''),
             (''sender_info'', HRef 3)]"
  let ?s = "HDict [(''id'', HInt 9)]"
  have d: "fromisoformat sample_lib (replace_Z ''2025-07-20'') = Some (DT 0 None)"
    by (simp add: sample_lib_def sample_parse_date_def replace_Z_def)
  have i: "isoformat sample_lib (DT 0 None) = ''1970-01-01T00:00:00''"
    by (simp add: sample_lib_def)
  have s1: "clean_text_step sample_lib ?cfg [?o0, ?o1, ?o0] 2 = [?o0, ?o1, ?c1]"
    by (simp add: clean_text_step_def load_item_def store_item_def heap_dict_def sample_clean_text)
  have s2: "clean_date_step sample_lib [?o0, ?o1, ?c1] 2 = [?o0, ?o1, ?c2]"
    by (simp add: clean_date_step_def load_item_def store_item_def heap_dict_def d i)
  have s3: "clean_sender_step [?o0, ?o1, ?c2] 2 = [?o0, ?o1, ?c3, ?s]"
    by (simp add: clean_sender_step_def load_item_def store_item_def heap_dict_def alloc_def)
  have t: "\<not> htruthy h HNone" for h by (simp add: htruthy_def)
  have s4: "clean_media_step [?o0, ?o1, ?c3, ?s] 2 ''photo'' = [?o0, ?o1, ?c4, ?s]"
    by (simp add: clean_media_step_def load_item_def delete_item_def heap_dict_def t)
  have s5: "clean_media_step [?o0, ?o1, ?c4, ?s] 2 ''video'' = [?o0, ?o1, ?c4, ?s]"
    "clean_media_step [?o0, ?o1, ?c4, ?s] 2 ''audio'' = [?o0, ?o1, ?c4, ?s]"
    "clean_media_step [?o0, ?o1, ?c4, ?s] 2 ''document'' = [?o0, ?o1, ?c4, ?s]"
    "clean_media_step [?o0, ?o1, ?c4, ?s] 2 ''sticker'' = [?o0, ?o1, ?c4, ?s]"
    by (simp_all add: clean_media_step_def load_item_def heap_dict_def)
  have s6: "foldl (\<lambda>hh media_key. clean_media_step hh 2 media_key) [?o0, ?o1, ?c3, ?s]
              [''photo'', ''video'', ''audio'', ''document'', ''sticker''] = [?o0, ?o1, ?c4, ?s]"
    by (simp only: foldl_Cons foldl_Nil s4 s5)
  have hd: "heap_dict sample_heap 0 = Some [(''id'', HInt 1), (''date'', HStr ''2025-07-20''),
      (''message'', HStr '' a  b ''), (''sender_info'', HRef 1), (''photo'', HNone)]"
    by (simp add: heap_dict_def sample_heap_def)
  have al: "alloc sample_heap ?o0 = ([?o0, ?o1, ?o0], 2)"
    by (simp add: alloc_def sample_heap_def)
  have "clean_message_h sample_lib ?cfg sample_heap 0 = Inr ([?o0, ?o1, ?c4, ?s], 2)"
    by (simp only: clean_message_h_def hd al option.case prod.case Let_def s1 s2 s3 s6)
  then show ?thesis by (simp add: sample_heap_def)
qed

lemma sample_heap_closed: "heap_closed sample_heap"
  by (simp add: heap_closed_def sample_heap_def)

text \<open>Claim C10 on the sample store: the record at address 0 and its sender information
  at address 1 are as before, and the cleaned record is at the new address 2.\<close>

theorem clean_message_frame_witness:
  "clean_message_h sample_lib default_validator_config sample_heap 0 =
     Inr (sample_heap @
            [HDict [(''id'', HInt 1), (''date'', HStr ''1970-01-01T00:00:00''),
                    (''message'', HStr ''a b''), (''sender_info'', HRef 3)],
             HDict [(''id'', HInt 9)]], 2)
   \<and> heap_dict sample_heap 0 \<noteq> None
   \<and> heap_closed sample_heap
   \<and> reify 3 (sample_heap @
            [HDict [(''id'', HInt 1), (''date'', HStr ''1970-01-01T00:00:00''),
                    (''message'', HStr ''a b''), (''sender_info'', HRef 3)],
             HDict [(''id'', HInt 9)]]) (HRef 0) = reify 3 sample_heap (HRef 0)
   \<and> take (length sample_heap)
        (fst (validate_and_clean_batch_h sample_lib default_validator_config sample_heap [HRef 0]))
       = sample_heap
   \<and> reify 3 (fst (validate_and_clean_batch_h sample_lib default_validator_config sample_heap [HRef 0]))
        (HRef 0) = reify 3 sample_heap (HRef 0)"
proof -
  let ?h' = "sample_heap @
            [HDict [(''id'', HInt 1), (''date'', HStr ''1970-01-01T00:00:00''),
                    (''message'', HStr ''a b''), (''sender_info'', HRef 3)],
             HDict [(''id'', HInt 9)]]"
  let ?run = "validate_and_clean_batch_h sample_lib default_validator_config sample_heap [HRef 0]"
  have ok: "val_ok (length sample_heap) (HRef 0)" by (simp add: sample_heap_def)
  have hd: "heap_dict sample_heap 0 \<noteq> None" by (simp add: heap_dict_def sample_heap_def)
  have run: "?run = (fst ?run, snd ?run)" by simp
  note inst = clean_message_frame[of sample_lib default_validator_config sample_heap 0 ?h' 2
      "HRef 0" 3 "[HRef 0]" "fst ?run" "snd ?run"]
  from inst sample_heap_clean sample_heap_closed ok
  have a: "reify 3 ?h' (HRef 0) = reify 3 sample_heap (HRef 0)" by blast
  from inst run have b: "take (length sample_heap) (fst ?run) = sample_heap" by blast
  from inst run sample_heap_closed ok
  have c: "reify 3 (fst ?run) (HRef 0) = reify 3 sample_heap (HRef 0)" by blast
  from sample_heap_clean hd sample_heap_closed a b c show ?thesis by blast
qed

subsection \<open>JSON round trip\<close>

subsubsection \<open>The parser reads back the tokens of a value\<close>

lemma parse_from_append:
  "parse_from st (a @ b) = (case parse_from st a of None \<Rightarrow> None | Some st' \<Rightarrow> parse_from st' b)"
  by (induction a arbitrary: st) (auto split: option.splits)

lemma deliver_ready: "ready stack \<Longrightarrow> \<exists>st. deliver v stack = Some st"
  by (cases "(v, stack)" rule: deliver.cases) auto

lemma dict_set_fresh: "k \<notin> fst ` set d \<Longrightarrow> dict_set d k v = d @ [(k, v)]"
  by (induction d) auto

lemma parse_tokens:
  "json_value v \<Longrightarrow> ready stack \<Longrightarrow> e = EValue \<or> e = EValueOrClose \<Longrightarrow>
     parse_from (stack, e, r) (tokens_of v @ rest)
       = (case deliver v stack of None \<Rightarrow> None | Some st \<Rightarrow> parse_from st rest)"
  "json_values xs \<Longrightarrow>
     parse_from (ListFrame acc # stack, ECommaOrClose, r) (tokens_items xs @ rest)
       = parse_from (ListFrame (acc @ xs) # stack, ECommaOrClose, (if xs = [] then r else None)) rest"
  "json_dict d \<Longrightarrow> distinct (map fst d) \<Longrightarrow> fst ` set d \<inter> fst ` set dacc = {} \<Longrightarrow>
     parse_from (DictFrame dacc None # stack, ECommaOrClose, r) (tokens_members d @ rest)
       = parse_from (DictFrame (dacc @ d) None # stack, ECommaOrClose, (if d = [] then r else None)) rest"
proof (induction v and xs and d arbitrary: stack e r rest and acc stack r rest and dacc stack r rest
    rule: tokens_of_tokens_items_tokens_members.induct)
  case 1
  then show ?case by (auto simp: parse_value_token_def split: option.splits)
next
  case (2 b)
  then show ?case by (auto simp: parse_value_token_def split: option.splits)
next
  case (3 i)
  then show ?case by (auto simp: parse_value_token_def split: option.splits)
next
  case (4 s)
  then show ?case by (auto simp: parse_value_token_def split: option.splits)
next
  case (5 dt)
  then show ?case by simp
next
  case 6
  then show ?case
    by (auto simp: parse_value_token_def close_list_def split: option.splits)
next
  case (7 x xs)
  from "7.prems" have jx: "json_value x" and jxs: "json_values xs" by simp_all
  have st: "parse_step (stack, e, r) TOpenList = Some (ListFrame [] # stack, EValueOrClose, None)"
    using "7.prems"(3) by (auto simp: parse_value_token_def)
  have "parse_from (stack, e, r) (tokens_of (PList (x # xs)) @ rest)
          = parse_from (ListFrame [] # stack, EValueOrClose, None)
              (tokens_of x @ (tokens_items xs @ TCloseList # rest))"
    using st by simp
  also have "\<dots> = parse_from (ListFrame [x] # stack, ECommaOrClose, None)
              (tokens_items xs @ TCloseList # rest)"
    using "7.IH"(1)[OF jx, of "ListFrame [] # stack" EValueOrClose None] by simp
  also have "\<dots> = parse_from (ListFrame ([x] @ xs) # stack, ECommaOrClose, None) (TCloseList # rest)"
    using "7.IH"(2)[OF jxs, of "[x]" stack None "TCloseList # rest"] by simp
  also have "\<dots> = (case deliver (PList (x # xs)) stack of None \<Rightarrow> None | Some st \<Rightarrow> parse_from st rest)"
    by (simp add: close_list_def split: option.splits)
  finally show ?case .
next
  case 8
  then show ?case
    by (auto simp: parse_value_token_def close_dict_def split: option.splits)
next
  case (9 k v d)
  from "9.prems" have jv: "json_value v" and jd: "json_dict d"
    and dist: "distinct (map fst d)" and fresh: "k \<notin> fst ` set d"
    by auto
  have st: "parse_step (stack, e, r) TOpenDict = Some (DictFrame [] None # stack, EKeyOrClose, None)"
    using "9.prems"(3) by (auto simp: parse_value_token_def)
  have "parse_from (stack, e, r) (tokens_of (PDict ((k, v) # d)) @ rest)
          = parse_from (DictFrame [] (Some k) # stack, EValue, None)
              (tokens_of v @ (tokens_members d @ TCloseDict # rest))"
    using st by (simp add: parse_key_def)
  also have "\<dots> = parse_from (DictFrame [(k, v)] None # stack, ECommaOrClose, None)
              (tokens_members d @ TCloseDict # rest)"
    using "9.IH"(1)[OF jv, of "DictFrame [] (Some k) # stack" EValue None] by simp
  also have "\<dots> = parse_from (DictFrame ([(k, v)] @ d) None # stack, ECommaOrClose, None)
              (TCloseDict # rest)"
    using "9.IH"(2)[OF jd dist, of "[(k, v)]" stack None "TCloseDict # rest"] fresh by simp
  also have "\<dots> = (case deliver (PDict ((k, v) # d)) stack of None \<Rightarrow> None | Some st \<Rightarrow> parse_from st rest)"
    by (simp add: close_dict_def split: option.splits)
  finally show ?case .
next
  case 10
  then show ?case by simp
next
  case (11 x xs)
  from "11.prems" have jx: "json_value x" and jxs: "json_values xs" by simp_all
  have "parse_from (ListFrame acc # stack, ECommaOrClose, r) (tokens_items (x # xs) @ rest)
          = parse_from (ListFrame acc # stack, EValue, None) (tokens_of x @ (tokens_items xs @ rest))"
    by simp
  also have "\<dots> = parse_from (ListFrame (acc @ [x]) # stack, ECommaOrClose, None) (tokens_items xs @ rest)"
    using "11.IH"(1)[OF jx, of "ListFrame acc # stack" EValue None] by simp
  also have "\<dots> = parse_from (ListFrame ((acc @ [x]) @ xs) # stack, ECommaOrClose, None) rest"
    using "11.IH"(2)[OF jxs, of "acc @ [x]" stack None rest] by simp
  finally show ?case by simp
next
  case 12
  then show ?case by simp
next
  case (13 k v d)
  from "13.prems" have jv: "json_value v" and jd: "json_dict d"
    and dist: "distinct (map fst d)" and fresh: "k \<notin> fst ` set d" and kacc: "k \<notin> fst ` set dacc"
    and disj: "fst ` set d \<inter> fst ` set (dacc @ [(k, v)]) = {}"
    by auto
  have "parse_from (DictFrame dacc None # stack, ECommaOrClose, r) (tokens_members ((k, v) # d) @ rest)
          = parse_from (DictFrame dacc (Some k) # stack, EValue, None)
              (tokens_of v @ (tokens_members d @ rest))"
    by (simp add: parse_key_def)
  also have "\<dots> = parse_from (DictFrame (dacc @ [(k, v)]) None # stack, ECommaOrClose, None)
              (tokens_members d @ rest)"
    using "13.IH"(1)[OF jv, of "DictFrame dacc (Some k) # stack" EValue None] kacc
    by (simp add: dict_set_fresh)
  also have "\<dots> = parse_from (DictFrame ((dacc @ [(k, v)]) @ d) None # stack, ECommaOrClose, None) rest"
    using "13.IH"(2)[OF jd dist disj, of stack None rest] by simp
  finally show ?case by simp
qed

lemma parse_tokens_top:
  "json_value v \<Longrightarrow> parse_from ([], EValue, None) (tokens_of v) = Some ([], EDone, Some v)"
  using parse_tokens(1)[of v "[]" EValue None "[]"] by simp

subsubsection \<open>The scanner reads back the text of a value\<close>

lemma lex_from_run:
  "lex_run m s = Some (ts, m') \<Longrightarrow>
   lex_from m (s @ rest) = (case lex_from m' rest of None \<Rightarrow> None | Some r \<Rightarrow> Some (ts @ r))"
  by (induction s arbitrary: m ts) (auto split: option.splits prod.splits)

lemma lex_run_append:
  "lex_run m a = Some (ts, m') \<Longrightarrow> lex_run m' b = Some (ts', m'') \<Longrightarrow>
   lex_run m (a @ b) = Some (ts @ ts', m'')"
  by (induction a arbitrary: m ts) (auto split: option.splits prod.splits)

lemma lex_run_spaces: "\<forall>c \<in> set s. is_json_space c \<Longrightarrow> lex_run Idle s = Some ([], Idle)"
  by (induction s) (auto simp: lex_idle_def)

lemma lex_run_words:
  "lex_run Idle ''null'' = Some ([TNull], Idle)"
  "lex_run Idle ''true'' = Some ([TBool True], Idle)"
  "lex_run Idle ''false'' = Some ([TBool False], Idle)"
  by (simp_all add: lex_idle_def lex_word_def is_json_space_def is_digit_def)

lemma lex_run_brackets:
  "lex_run Idle ''['' = Some ([TOpenList], Idle)"
  "lex_run Idle '']'' = Some ([TCloseList], Idle)"
  "lex_run Idle ''{'' = Some ([TOpenDict], Idle)"
  "lex_run Idle ''}'' = Some ([TCloseDict], Idle)"
  "lex_run Idle '','' = Some ([TComma], Idle)"
  "lex_run Idle '':'' = Some ([TColon], Idle)"
  "lex_run Idle '': '' = Some ([TColon], Idle)"
  by (simp_all add: lex_idle_def is_json_space_def)

subsubsection \<open>Strings\<close>

lemma hex_digit_val: "d < 16 \<Longrightarrow> hex_val (hex_digit d) = Some d"
proof -
  assume "d < 16"
  then consider "d = 0" | "d = 1" | "d = 2" | "d = 3" | "d = 4" | "d = 5" | "d = 6" | "d = 7"
    | "d = 8" | "d = 9" | "d = 10" | "d = 11" | "d = 12" | "d = 13" | "d = 14" | "d = 15"
    by atomize_elim arith
  then show ?thesis
    by cases (simp_all add: hex_digit_def hex_val_def)
qed

lemma hex_zero: "hex_val CHR ''0'' = Some 0"
  by (simp add: hex_val_def)

lemma lex_run_escape_char:
  "lex_run (InString acc) (escape_char c) = Some ([], InString (acc @ [c]))"
proof -
  let ?n = "of_char c :: nat"
  consider (q) "c = CHR 0x22" | (b) "c = CHR 0x5C" | (n) "c = CHR 0x0A" | (r) "c = CHR 0x0D"
    | (t) "c = CHR 0x09" | (bs) "c = CHR 0x08" | (ff) "c = CHR 0x0C"
    | (ctl) "c \<notin> {CHR 0x22, CHR 0x5C, CHR 0x0A, CHR 0x0D, CHR 0x09, CHR 0x08, CHR 0x0C}" "?n < 32"
    | (plain) "c \<notin> {CHR 0x22, CHR 0x5C, CHR 0x0A, CHR 0x0D, CHR 0x09, CHR 0x08, CHR 0x0C}" "\<not> ?n < 32"
    by blast
  then show ?thesis
  proof cases
    case ctl
    have d1: "?n div 16 < 16" using ctl(2) by simp
    have d2: "?n mod 16 < 16" by simp
    have v: "16 * (?n div 16) + ?n mod 16 = ?n" by simp
    have lt: "?n < 256" using ctl(2) by simp
    from ctl show ?thesis
      by (simp add: escape_char_def lex_escape_def hex_zero hex_digit_val[OF d1] hex_digit_val[OF d2] v lt)
  next
    case plain
    then show ?thesis by (simp add: escape_char_def)
  qed (simp_all add: escape_char_def lex_escape_def)
qed

lemma lex_run_escaped:
  "lex_run (InString acc) (concat (map escape_char s)) = Some ([], InString (acc @ s))"
proof (induction s arbitrary: acc)
  case Nil
  then show ?case by simp
next
  case (Cons c s)
  from lex_run_append[OF lex_run_escape_char[of acc c] Cons[of "acc @ [c]"]]
  show ?case by simp
qed

lemma lex_run_string: "lex_run Idle (encode_string s) = Some ([TText s], Idle)"
proof -
  have a: "lex_run Idle [CHR 0x22] = Some ([], InString [])"
    by (simp add: lex_idle_def is_json_space_def)
  have b: "lex_run (InString s) [CHR 0x22] = Some ([TText s], Idle)" by simp
  from lex_run_append[OF lex_run_escaped[of "[]" s, simplified] b]
  have "lex_run (InString []) (concat (map escape_char s) @ [CHR 0x22]) = Some ([TText s], Idle)"
    by simp
  from lex_run_append[OF a this] show ?thesis by (simp add: encode_string_def)
qed

subsubsection \<open>Numbers\<close>

lemma lex_idle_digit:
  assumes "d < 10"
  shows "lex_idle (digit_char d) = Some ([], if d = 0 then NumZero else NumDigits False d)"
    and "lex_step NumStart (digit_char d) = Some ([], if d = 0 then NumZero else NumDigits True d)"
    and "lex_step (NumDigits neg m) (digit_char d) = Some ([], NumDigits neg (10 * m + d))"
proof -
  from assms consider "d = 0" | "d = 1" | "d = 2" | "d = 3" | "d = 4" | "d = 5" | "d = 6" | "d = 7"
    | "d = 8" | "d = 9"
    by atomize_elim arith
  then have "(lex_idle (digit_char d) = Some ([], if d = 0 then NumZero else NumDigits False d))
      \<and> (lex_step NumStart (digit_char d) = Some ([], if d = 0 then NumZero else NumDigits True d))
      \<and> (lex_step (NumDigits neg m) (digit_char d) = Some ([], NumDigits neg (10 * m + d)))"
    by cases (simp_all add: digit_char_def lex_idle_def is_json_space_def is_digit_def digit_val_def)
  then show "lex_idle (digit_char d) = Some ([], if d = 0 then NumZero else NumDigits False d)"
    and "lex_step NumStart (digit_char d) = Some ([], if d = 0 then NumZero else NumDigits True d)"
    and "lex_step (NumDigits neg m) (digit_char d) = Some ([], NumDigits neg (10 * m + d))"
    by simp_all
qed

lemma lex_run_str_nat:
  "0 < n \<Longrightarrow> lex_run Idle (str_nat n) = Some ([], NumDigits False n)
             \<and> lex_run NumStart (str_nat n) = Some ([], NumDigits True n)"
proof (induction n rule: str_nat.induct)
  case (1 n)
  show ?case
  proof (cases "n < 10")
    case True
    with "1.prems" lex_idle_digit(1,2)[OF True] show ?thesis
      by (subst (1 2) str_nat.simps) (simp del: str_nat.simps)
  next
    case False
    then have pos: "0 < n div 10" by simp
    have d: "n mod 10 < 10" by simp
    from "1.IH"[OF False pos]
    have ih: "lex_run Idle (str_nat (n div 10)) = Some ([], NumDigits False (n div 10))"
      "lex_run NumStart (str_nat (n div 10)) = Some ([], NumDigits True (n div 10))"
      by simp_all
    have last: "lex_run (NumDigits neg (n div 10)) [digit_char (n mod 10)] = Some ([], NumDigits neg n)"
      for neg
      using lex_idle_digit(3)[OF d, of neg "n div 10"] by simp
    from lex_run_append[OF ih(1) last[of False]] lex_run_append[OF ih(2) last[of True]] False
    show ?thesis
      by (subst (1 2) str_nat.simps) (simp del: str_nat.simps)
  qed
qed

lemma after_number_delim:
  "delim c \<Longrightarrow> after_number tok c
     = (case lex_idle c of None \<Rightarrow> None | Some (ts, m) \<Rightarrow> Some (tok # ts, m))"
  by (auto simp: delim_def after_number_def is_digit_def is_json_space_def)

lemma lex_idle_delim: "delim c \<Longrightarrow> \<exists>ts m. lex_idle c = Some (ts, m)"
  by (auto simp: delim_def lex_idle_def)

lemma lex_run_str_int:
  "\<exists>m. lex_run Idle (str_int i) = Some ([], m) \<and> lex_end m = Some [TNumber i]
       \<and> (\<forall>c. lex_step m c = (if m = NumZero then after_number (TNumber i) c
                               else if is_digit c then lex_step m c
                               else after_number (TNumber i) c))"
proof -
  consider (zero) "i = 0" | (pos) "0 < i" | (neg) "i < 0" by linarith
  then show ?thesis
  proof cases
    case zero
    have "lex_run Idle (str_int 0) = Some ([], NumZero)"
      using lex_idle_digit(1)[of 0] by (simp add: str_int_def)
    with zero show ?thesis by auto
  next
    case pos
    then have "lex_run Idle (str_int i) = Some ([], NumDigits False (nat i))"
      using lex_run_str_nat[of "nat i"] by (simp add: str_int_def del: str_nat.simps)
    moreover have "number_token False (nat i) = TNumber i" using pos by (simp add: number_token_def)
    ultimately show ?thesis by auto
  next
    case neg
    then have n: "0 < nat (- i)" by simp
    have "lex_run Idle [CHR ''-''] = Some ([], NumStart)"
      by (simp add: lex_idle_def is_json_space_def)
    from lex_run_append[OF this conjunct2[OF lex_run_str_nat[OF n]]] neg
    have "lex_run Idle (str_int i) = Some ([], NumDigits True (nat (- i)))"
      by (simp add: str_int_def del: str_nat.simps)
    moreover have "number_token True (nat (- i)) = TNumber i" using neg by (simp add: number_token_def)
    ultimately show ?thesis by auto
  qed
qed

lemma delim_not_digit: "delim c \<Longrightarrow> \<not> is_digit c"
  by (auto simp: delim_def is_digit_def is_json_space_def)

lemma lex_number_then:
  assumes "starts_delim t"
  shows "lex_from Idle (str_int i @ t) = map_option ((@) [TNumber i]) (lex_from Idle t)"
proof -
  from assms obtain c t' where t: "t = c # t'" and dc: "delim c"
    by (auto simp: starts_delim_def split: list.splits)
  from lex_run_str_int[of i] obtain m where
    m: "lex_run Idle (str_int i) = Some ([], m)"
    and st: "\<forall>c. lex_step m c = (if m = NumZero then after_number (TNumber i) c
                               else if is_digit c then lex_step m c
                               else after_number (TNumber i) c)"
    by blast
  from st dc have "lex_step m c = after_number (TNumber i) c"
    using delim_not_digit[OF dc] by metis
  with after_number_delim[OF dc]
  have step: "lex_step m c = (case lex_idle c of None \<Rightarrow> None | Some (ts, m') \<Rightarrow> Some (TNumber i # ts, m'))"
    by simp
  from lex_idle_delim[OF dc] obtain ts m' where li: "lex_idle c = Some (ts, m')" by blast
  have "lex_from Idle (str_int i @ t) = lex_from m (c # t')"
    using lex_from_run[OF m, of t] t by (auto split: option.splits)
  also have "\<dots> = map_option ((@) [TNumber i]) (lex_from Idle (c # t'))"
    using step li by (auto split: option.splits)
  finally show ?thesis using t by simp
qed

subsubsection \<open>Values\<close>

lemma lex_seg:
  "lex_run Idle a = Some (ts, Idle) \<Longrightarrow>
   lex_from Idle (a @ rest) = map_option ((@) ts) (lex_from Idle rest)"
  using lex_from_run[of Idle a ts Idle rest] by (cases "lex_from Idle rest") simp_all

lemma lex_skip:
  "\<forall>c \<in> set s. is_json_space c \<Longrightarrow> lex_from Idle (s @ rest) = lex_from Idle rest"
  using lex_seg[OF lex_run_spaces, of s rest] by (cases "lex_from Idle rest") simp_all

lemma map_option_app:
  "map_option ((@) a) (map_option ((@) b) x) = map_option ((@) (a @ b)) x"
  by (cases x) simp_all

lemma append_single: "(@) (a # as) = (\<lambda>x. a # (as @ x))" "(@) [] = (\<lambda>x. x)"
  by (rule ext, simp)+

lemma starts_delim_simps:
  "starts_delim (CHR '','' # t)" "starts_delim (CHR '']'' # t)" "starts_delim (CHR ''}'' # t)"
  by (simp_all add: starts_delim_def delim_def)

lemma starts_delim_spaces:
  "\<forall>c \<in> set s. is_json_space c \<Longrightarrow> starts_delim t \<Longrightarrow> starts_delim (s @ t)"
  by (cases s) (auto simp: starts_delim_def delim_def)

lemma starts_delim_items:
  "starts_delim t \<Longrightarrow> starts_delim (json_items dflt nl ks lvl xs @ t)"
  by (cases xs) (simp_all add: starts_delim_simps)

lemma starts_delim_members:
  "starts_delim t \<Longrightarrow> starts_delim (json_members dflt nl ks lvl d @ t)"
  by (cases d) (auto simp: starts_delim_simps)

lemma lex_text:
  notes lex_from.simps [simp del] and append_single [simp]
  assumes sp: "\<And>l. \<forall>c \<in> set (nl l). is_json_space c"
    and ks: "lex_run Idle ks = Some ([TColon], Idle)"
  shows "json_value v \<Longrightarrow> starts_delim t \<or> (\<forall>i. v \<noteq> PInt i) \<Longrightarrow>
           lex_from Idle (json_text dflt nl ks lvl v @ t)
             = map_option ((@) (tokens_of v)) (lex_from Idle t)"
    and "json_values xs \<Longrightarrow> starts_delim t \<Longrightarrow>
           lex_from Idle (json_items dflt nl ks lvl xs @ t)
             = map_option ((@) (tokens_items xs)) (lex_from Idle t)"
    and "json_dict d \<Longrightarrow> starts_delim t \<Longrightarrow>
           lex_from Idle (json_members dflt nl ks lvl d @ t)
             = map_option ((@) (tokens_members d)) (lex_from Idle t)"
proof (induction v and xs and d arbitrary: lvl t and lvl t and lvl t
    rule: tokens_of_tokens_items_tokens_members.induct)
  case 1
  show ?case using lex_seg[OF lex_run_words(1), of t] by simp
next
  case (2 b)
  show ?case
    using lex_seg[OF lex_run_words(2), of t] lex_seg[OF lex_run_words(3), of t] by (cases b) simp_all
next
  case (3 i)
  then have "starts_delim t" by simp
  from lex_number_then[OF this, of i] show ?case by simp
next
  case (4 s)
  show ?case using lex_seg[OF lex_run_string, of s t] by simp
next
  case (5 dt)
  then show ?case by simp
next
  case 6
  have "lex_run Idle ''[]'' = Some ([TOpenList, TCloseList], Idle)"
    by (simp add: lex_idle_def is_json_space_def)
  from lex_seg[OF this, of t] show ?case by simp
next
  case (7 x xs)
  from "7.prems" have jx: "json_value x" and jxs: "json_values xs" by simp_all
  let ?T2 = "nl lvl @ CHR '']'' # t"
  let ?T1 = "json_items dflt nl ks (Suc lvl) xs @ ?T2"
  have sd2: "starts_delim ?T2" using starts_delim_spaces[OF sp] starts_delim_simps(2) by blast
  have sd1: "starts_delim ?T1" using starts_delim_items[OF sd2] by simp
  have e1: "lex_from Idle (json_text dflt nl ks lvl (PList (x # xs)) @ t)
          = map_option ((@) [TOpenList]) (lex_from Idle (json_text dflt nl ks (Suc lvl) x @ ?T1))"
    using lex_seg[OF lex_run_brackets(1), of "nl (Suc lvl) @ json_text dflt nl ks (Suc lvl) x @ ?T1"]
      lex_skip[OF sp, of "Suc lvl" "json_text dflt nl ks (Suc lvl) x @ ?T1"]
    by simp
  have e2: "lex_from Idle (json_text dflt nl ks (Suc lvl) x @ ?T1)
          = map_option ((@) (tokens_of x)) (lex_from Idle ?T1)"
    using "7.IH"(1)[OF jx, of ?T1 "Suc lvl"] sd1 by simp
  have e3: "lex_from Idle ?T1 = map_option ((@) (tokens_items xs)) (lex_from Idle ?T2)"
    using "7.IH"(2)[OF jxs sd2, of "Suc lvl"] by simp
  have e4: "lex_from Idle ?T2 = map_option ((@) [TCloseList]) (lex_from Idle t)"
    using lex_skip[OF sp, of lvl "CHR '']'' # t"] lex_seg[OF lex_run_brackets(2), of t] by simp
  show ?case unfolding e1 e2 e3 e4 by (cases "lex_from Idle t") simp_all
next
  case 8
  have "lex_run Idle ''{}'' = Some ([TOpenDict, TCloseDict], Idle)"
    by (simp add: lex_idle_def is_json_space_def)
  from lex_seg[OF this, of t] show ?case by simp
next
  case (9 k v d)
  from "9.prems" have jv: "json_value v" and jd: "json_dict d" by simp_all
  let ?T2 = "nl lvl @ CHR ''}'' # t"
  let ?T1 = "json_members dflt nl ks (Suc lvl) d @ ?T2"
  let ?V = "json_text dflt nl ks (Suc lvl) v @ ?T1"
  have sd2: "starts_delim ?T2" using starts_delim_spaces[OF sp] starts_delim_simps(3) by blast
  have sd1: "starts_delim ?T1" using starts_delim_members[OF sd2] by simp
  have e1: "lex_from Idle (json_text dflt nl ks lvl (PDict ((k, v) # d)) @ t)
          = map_option ((@) [TOpenDict, TText k, TColon]) (lex_from Idle ?V)"
    using lex_seg[OF lex_run_brackets(3), of "nl (Suc lvl) @ encode_string k @ ks @ ?V"]
      lex_skip[OF sp, of "Suc lvl" "encode_string k @ ks @ ?V"]
      lex_seg[OF lex_run_string, of k "ks @ ?V"] lex_seg[OF ks, of ?V]
    by (simp add: option.map_comp comp_def)
  have e2: "lex_from Idle ?V = map_option ((@) (tokens_of v)) (lex_from Idle ?T1)"
    using "9.IH"(1)[OF jv, of ?T1 "Suc lvl"] sd1 by simp
  have e3: "lex_from Idle ?T1 = map_option ((@) (tokens_members d)) (lex_from Idle ?T2)"
    using "9.IH"(2)[OF jd sd2, of "Suc lvl"] by simp
  have e4: "lex_from Idle ?T2 = map_option ((@) [TCloseDict]) (lex_from Idle t)"
    using lex_skip[OF sp, of lvl "CHR ''}'' # t"] lex_seg[OF lex_run_brackets(4), of t] by simp
  show ?case unfolding e1 e2 e3 e4 by (cases "lex_from Idle t") simp_all
next
  case 10
  show ?case by (cases "lex_from Idle t") simp_all
next
  case (11 x xs)
  from "11.prems" have jx: "json_value x" and jxs: "json_values xs" and sd: "starts_delim t"
    by simp_all
  let ?T1 = "json_items dflt nl ks lvl xs @ t"
  have sd1: "starts_delim ?T1" using starts_delim_items[OF sd] by simp
  have e1: "lex_from Idle (json_items dflt nl ks lvl (x # xs) @ t)
          = map_option ((@) [TComma]) (lex_from Idle (json_text dflt nl ks lvl x @ ?T1))"
    using lex_seg[OF lex_run_brackets(5), of "nl lvl @ json_text dflt nl ks lvl x @ ?T1"]
      lex_skip[OF sp, of lvl "json_text dflt nl ks lvl x @ ?T1"]
    by simp
  have e2: "lex_from Idle (json_text dflt nl ks lvl x @ ?T1)
          = map_option ((@) (tokens_of x)) (lex_from Idle ?T1)"
    using "11.IH"(1)[OF jx, of ?T1 lvl] sd1 by simp
  have e3: "lex_from Idle ?T1 = map_option ((@) (tokens_items xs)) (lex_from Idle t)"
    using "11.IH"(2)[OF jxs sd, of lvl] by simp
  show ?case unfolding e1 e2 e3 by (cases "lex_from Idle t") simp_all
next
  case 12
  show ?case by (cases "lex_from Idle t") simp_all
next
  case (13 k v d)
  from "13.prems" have jv: "json_value v" and jd: "json_dict d" and sd: "starts_delim t"
    by simp_all
  let ?T1 = "json_members dflt nl ks lvl d @ t"
  let ?V = "json_text dflt nl ks lvl v @ ?T1"
  have sd1: "starts_delim ?T1" using starts_delim_members[OF sd] by simp
  have e1: "lex_from Idle (json_members dflt nl ks lvl ((k, v) # d) @ t)
          = map_option ((@) [TComma, TText k, TColon]) (lex_from Idle ?V)"
    using lex_seg[OF lex_run_brackets(5), of "nl lvl @ encode_string k @ ks @ ?V"]
      lex_skip[OF sp, of lvl "encode_string k @ ks @ ?V"]
      lex_seg[OF lex_run_string, of k "ks @ ?V"] lex_seg[OF ks, of ?V]
    by (simp add: option.map_comp comp_def)
  have e2: "lex_from Idle ?V = map_option ((@) (tokens_of v)) (lex_from Idle ?T1)"
    using "13.IH"(1)[OF jv, of ?T1 lvl] sd1 by simp
  have e3: "lex_from Idle ?T1 = map_option ((@) (tokens_members d)) (lex_from Idle t)"
    using "13.IH"(2)[OF jd sd, of lvl] by simp
  show ?case unfolding e1 e2 e3 by (cases "lex_from Idle t") simp_all
qed

subsubsection \<open>Whole documents\<close>

declare lex_from.simps [simp del] append_single [simp]

lemma lex_from_idle_nil [simp]: "lex_from Idle [] = Some []"
  by (simp add: lex_from.simps)

lemma json_values_append: "json_values (xs @ ys) \<longleftrightarrow> json_values xs \<and> json_values ys"
  by (induction xs) simp_all

lemma drop1_append: "xs \<noteq> [] \<Longrightarrow> drop 1 (xs @ ys) = drop 1 xs @ ys"
  by (cases xs) simp_all

lemma json_value_serializable:
  "json_value v \<Longrightarrow> serializable v"
  "json_values xs \<Longrightarrow> serializable_list xs"
  "json_dict d \<Longrightarrow> serializable_dict d"
  by (induction v and xs and d rule: json_value_json_values_json_dict.induct) simp_all

lemma indent_nl_spaces: "\<forall>c \<in> set (indent_nl l). is_json_space c"
  by (simp add: indent_nl_def is_json_space_def)

lemma compact_nl_spaces: "\<forall>c \<in> set (compact_nl l). is_json_space c"
  by (simp add: compact_nl_def)

lemma loads_tokens:
  assumes "json_value v" and "lex_from Idle s = Some (tokens_of v)"
  shows "json_loads s = Some v"
  using assms parse_tokens_top[of v] by (simp add: json_loads_def)

lemma export_json_loads:
  assumes "json_values (map PDict msgs)"
  shows "json_loads (export_json lib msgs) = Some (PList (map PDict msgs))"
proof -
  let ?v = "PList (map PDict msgs)"
  have jv: "json_value ?v" using assms by simp
  have "lex_from Idle (json_text (isoformat lib) indent_nl '': '' 0 ?v @ [])
          = map_option ((@) (tokens_of ?v)) (lex_from Idle [])"
    by (rule lex_text(1)[OF indent_nl_spaces lex_run_brackets(7) jv]) simp
  then have "lex_from Idle (export_json lib msgs) = Some (tokens_of ?v)"
    by (simp add: export_json_def)
  from loads_tokens[OF jv this] show ?thesis .
qed

lemma tokens_items_append:
  "tokens_items (xs @ ys) = tokens_items xs @ tokens_items ys"
  by (induction xs) simp_all

lemma tokens_items_nonempty: "xs \<noteq> [] \<Longrightarrow> tokens_items xs \<noteq> []"
  by (cases xs) simp_all

lemma record_text:
  assumes "json_value (PDict m)"
  shows "lex_from Idle (''  '' @ json_text dflt compact_nl '':'' 0 (PDict m) @ t)
           = map_option ((@) (tokens_of (PDict m))) (lex_from Idle t)"
proof -
  have sp: "\<forall>c \<in> set ''  ''. is_json_space c" by (simp add: is_json_space_def)
  have "lex_from Idle (''  '' @ (json_text dflt compact_nl '':'' 0 (PDict m) @ t))
          = lex_from Idle (json_text dflt compact_nl '':'' 0 (PDict m) @ t)"
    by (rule lex_skip[OF sp])
  also have "\<dots> = map_option ((@) (tokens_of (PDict m))) (lex_from Idle t)"
    by (rule lex_text(1)[OF compact_nl_spaces lex_run_brackets(6) assms]) simp
  finally show ?thesis by simp
qed

lemma separator_text:
  "lex_from Idle ([CHR '','', CHR 0x0A] @ t) = map_option ((@) [TComma]) (lex_from Idle t)"
proof -
  have sp: "\<forall>c \<in> set [CHR 0x0A]. is_json_space c" by (simp add: is_json_space_def)
  have "lex_from Idle ('','' @ ([CHR 0x0A] @ t))
          = map_option ((@) [TComma]) (lex_from Idle ([CHR 0x0A] @ t))"
    by (rule lex_seg[OF lex_run_brackets(5)])
  also have "lex_from Idle ([CHR 0x0A] @ t) = lex_from Idle t"
    by (rule lex_skip[OF sp])
  finally show ?thesis by simp
qed

text \<open>
  The text written so far scans to the opening bracket followed by the records already
  written, whatever text follows; the flag \<open>first\<close> is set exactly when no record has
  been written.
\<close>

lemma write_batch_tokens:
  assumes "json_values (map PDict ms)"
    and "first \<longleftrightarrow> written = []"
    and "\<forall>t. lex_from Idle (out @ t)
           = map_option ((@) (TOpenList # drop 1 (tokens_items (map PDict written))))
               (lex_from Idle t)"
  shows "\<exists>out'. write_batch out first ms = Inr out' \<and>
           (\<forall>t. lex_from Idle (out' @ t)
              = map_option ((@) (TOpenList # drop 1 (tokens_items (map PDict (written @ ms)))))
                  (lex_from Idle t))"
  using assms
proof (induction ms arbitrary: out first written)
  case Nil
  then show ?case by simp
next
  case (Cons m ms)
  from Cons.prems(1) have jm: "json_value (PDict m)" and jms: "json_values (map PDict ms)"
    by simp_all
  let ?js = "json_text (\<lambda>dt. []) compact_nl '':'' 0 (PDict m)"
  let ?out = "(if first then out else out @ [CHR '','', CHR 0x0A]) @ ''  '' @ ?js"
  have d: "dumps_compact (PDict m) = Inr ?js"
    using json_value_serializable(1)[OF jm] by (simp add: dumps_compact_def)
  have inv: "\<forall>t. lex_from Idle (?out @ t)
           = map_option ((@) (TOpenList # drop 1 (tokens_items (map PDict (written @ [m])))))
               (lex_from Idle t)"
  proof
    fix t
    show "lex_from Idle (?out @ t)
           = map_option ((@) (TOpenList # drop 1 (tokens_items (map PDict (written @ [m])))))
               (lex_from Idle t)"
    proof (cases first)
      case True
      with Cons.prems(2) have w: "written = []" by simp
      have "lex_from Idle (?out @ t) = lex_from Idle (out @ (''  '' @ ?js @ t))"
        using True by simp
      also have "\<dots> = map_option ((@) [TOpenList]) (lex_from Idle (''  '' @ ?js @ t))"
        using Cons.prems(3) w by simp
      also have "lex_from Idle (''  '' @ ?js @ t)
                   = map_option ((@) (tokens_of (PDict m))) (lex_from Idle t)"
        by (rule record_text[OF jm])
      finally show ?thesis using w by (cases "lex_from Idle t") simp_all
    next
      case False
      with Cons.prems(2) have w: "written \<noteq> []" by simp
      then have ne: "tokens_items (map PDict written) \<noteq> []"
        by (simp add: tokens_items_nonempty)
      have "lex_from Idle (?out @ t)
              = lex_from Idle (out @ ([CHR '','', CHR 0x0A] @ (''  '' @ ?js @ t)))"
        using False by simp
      also have "\<dots> = map_option ((@) (TOpenList # drop 1 (tokens_items (map PDict written))))
                          (lex_from Idle ([CHR '','', CHR 0x0A] @ (''  '' @ ?js @ t)))"
        using Cons.prems(3) by blast
      also have "lex_from Idle ([CHR '','', CHR 0x0A] @ (''  '' @ ?js @ t))
                   = map_option ((@) [TComma]) (lex_from Idle (''  '' @ ?js @ t))"
        by (rule separator_text)
      also have "lex_from Idle (''  '' @ ?js @ t)
                   = map_option ((@) (tokens_of (PDict m))) (lex_from Idle t)"
        by (rule record_text[OF jm])
      finally have e: "lex_from Idle (?out @ t)
          = map_option ((@) (TOpenList # drop 1 (tokens_items (map PDict written))))
              (map_option ((@) [TComma]) (map_option ((@) (tokens_of (PDict m))) (lex_from Idle t)))" .
      have "drop 1 (tokens_items (map PDict (written @ [m])))
              = drop 1 (tokens_items (map PDict written)) @ TComma # tokens_of (PDict m)"
        using drop1_append[OF ne] by (simp add: tokens_items_append)
      then show ?thesis unfolding e by (cases "lex_from Idle t") simp_all
    qed
  qed
  have "False \<longleftrightarrow> written @ [m] = []" by simp
  from Cons.IH[OF jms this inv] obtain out' where
    "write_batch ?out False ms = Inr out'"
    "\<forall>t. lex_from Idle (out' @ t)
       = map_option ((@) (TOpenList # drop 1 (tokens_items (map PDict ((written @ [m]) @ ms)))))
           (lex_from Idle t)"
    by blast
  then show ?case using d by simp
qed

lemma stream_loop_tokens:
  assumes "json_values (map PDict (batch @ rest))"
    and "first \<longleftrightarrow> written = []"
    and "\<forall>t. lex_from Idle (out @ t)
           = map_option ((@) (TOpenList # drop 1 (tokens_items (map PDict written))))
               (lex_from Idle t)"
  shows "\<exists>out' first' batch' chunks' written'.
           stream_loop batch_size out first batch count chunks rest
             = Inr (out', first', batch', count + length rest, chunks') \<and>
           written' @ batch' = written @ batch @ rest \<and>
           (first' \<longleftrightarrow> written' = []) \<and>
           (\<forall>t. lex_from Idle (out' @ t)
              = map_option ((@) (TOpenList # drop 1 (tokens_items (map PDict written'))))
                  (lex_from Idle t))"
  using assms
proof (induction rest arbitrary: out first batch count chunks written)
  case Nil
  then show ?case by auto
next
  case (Cons m rest)
  show ?case
  proof (cases "int (length (batch @ [m])) \<ge> batch_size")
    case True
    from Cons.prems(1) have j1: "json_values (map PDict (batch @ [m]))"
      and j2: "json_values (map PDict ([] @ rest))"
      by (simp_all add: json_values_append)
    from write_batch_tokens[OF j1 Cons.prems(2) Cons.prems(3)] obtain out' where
      w: "write_batch out first (batch @ [m]) = Inr out'"
      and inv: "\<forall>t. lex_from Idle (out' @ t)
         = map_option ((@) (TOpenList # drop 1 (tokens_items (map PDict (written @ batch @ [m])))))
             (lex_from Idle t)"
      by blast
    have f: "False \<longleftrightarrow> written @ batch @ [m] = []" by simp
    from Cons.IH[OF j2 f inv, of "Suc count" "Suc chunks"] obtain out'' first' batch' chunks' written'
      where l: "stream_loop batch_size out' False [] (Suc count) (Suc chunks) rest
               = Inr (out'', first', batch', Suc count + length rest, chunks')"
        and s: "written' @ batch' = (written @ batch @ [m]) @ [] @ rest"
        and g: "first' \<longleftrightarrow> written' = []"
        and i: "\<forall>t. lex_from Idle (out'' @ t)
              = map_option ((@) (TOpenList # drop 1 (tokens_items (map PDict written'))))
                  (lex_from Idle t)"
      by blast
    have l': "stream_loop batch_size out first batch count chunks (m # rest)
               = Inr (out'', first', batch', count + length (m # rest), chunks')"
      using True w l by (simp del: write_batch.simps)
    have s': "written' @ batch' = written @ batch @ m # rest" using s by simp
    from l' s' g i show ?thesis by blast
  next
    case False
    from Cons.prems(1) have j: "json_values (map PDict ((batch @ [m]) @ rest))" by simp
    from Cons.IH[OF j Cons.prems(2) Cons.prems(3), of "Suc count" chunks]
    obtain out' first' batch' chunks' written'
      where l: "stream_loop batch_size out first (batch @ [m]) (Suc count) chunks rest
               = Inr (out', first', batch', Suc count + length rest, chunks')"
        and s: "written' @ batch' = written @ (batch @ [m]) @ rest"
        and g: "first' \<longleftrightarrow> written' = []"
        and i: "\<forall>t. lex_from Idle (out' @ t)
              = map_option ((@) (TOpenList # drop 1 (tokens_items (map PDict written'))))
                  (lex_from Idle t)"
      by blast
    have l': "stream_loop batch_size out first batch count chunks (m # rest)
               = Inr (out', first', batch', count + length (m # rest), chunks')"
      using False l by simp
    have s': "written' @ batch' = written @ batch @ m # rest" using s by simp
    from l' s' g i show ?thesis by blast
  qed
qed

lemma stream_loads:
  assumes "json_values (map PDict msgs)"
  shows "\<exists>text chunks. process_messages_stream batch_size msgs = Inr (text, length msgs, chunks)
           \<and> json_loads text = Some (PList (map PDict msgs))"
proof -
  have sp: "\<forall>c \<in> set [CHR 0x0A]. is_json_space c" by (simp add: is_json_space_def)
  have start: "\<forall>t. lex_from Idle ([CHR ''['', CHR 0x0A] @ t)
           = map_option ((@) (TOpenList # drop 1 (tokens_items (map PDict []))))
               (lex_from Idle t)"
  proof
    fix t
    have "lex_from Idle (''['' @ ([CHR 0x0A] @ t))
            = map_option ((@) [TOpenList]) (lex_from Idle ([CHR 0x0A] @ t))"
      by (rule lex_seg[OF lex_run_brackets(1)])
    also have "lex_from Idle ([CHR 0x0A] @ t) = lex_from Idle t"
      by (rule lex_skip[OF sp])
    finally show "lex_from Idle ([CHR ''['', CHR 0x0A] @ t)
           = map_option ((@) (TOpenList # drop 1 (tokens_items (map PDict []))))
               (lex_from Idle t)" by simp
  qed
  have j: "json_values (map PDict ([] @ msgs))" using assms by simp
  have f: "True \<longleftrightarrow> ([] :: pydict list) = []" by simp
  from stream_loop_tokens[OF j f start, of batch_size 0 0]
  obtain out first batch chunks written where
    loop0: "stream_loop batch_size [CHR ''['', CHR 0x0A] True [] 0 0 msgs
             = Inr (out, first, batch, 0 + length msgs, chunks)"
    and split0: "written @ batch = [] @ [] @ msgs"
    and flag: "first \<longleftrightarrow> written = []"
    and inv: "\<forall>t. lex_from Idle (out @ t)
              = map_option ((@) (TOpenList # drop 1 (tokens_items (map PDict written))))
                  (lex_from Idle t)"
    by blast
  from loop0 have loop: "stream_loop batch_size [CHR ''['', CHR 0x0A] True [] 0 0 msgs
             = Inr (out, first, batch, length msgs, chunks)" by simp
  from split0 have split: "written @ batch = msgs" by simp
  have "json_values (map PDict (written @ batch))" using assms split by simp
  then have jb: "json_values (map PDict batch)" by (simp add: json_values_append)
  from write_batch_tokens[OF jb flag inv] obtain out' where
    w: "write_batch out first batch = Inr out'"
    and inv0: "\<forall>t. lex_from Idle (out' @ t)
              = map_option ((@) (TOpenList # drop 1 (tokens_items (map PDict (written @ batch)))))
                  (lex_from Idle t)"
    by blast
  from inv0 have inv': "\<forall>t. lex_from Idle (out' @ t)
              = map_option ((@) (TOpenList # drop 1 (tokens_items (map PDict msgs))))
                  (lex_from Idle t)"
    unfolding split .
  have flush: "(if batch \<noteq> [] then write_batch out first batch else Inr out) = Inr out'"
    using w by (cases batch) simp_all
  have res: "process_messages_stream batch_size msgs
               = Inr (out' @ [CHR 0x0A, CHR '']''], length msgs, chunks)"
    unfolding process_messages_stream_def loop using flush by simp
  have "lex_from Idle ([CHR 0x0A] @ ('']'' @ [])) = lex_from Idle ('']'' @ [])"
    by (rule lex_skip[OF sp])
  also have "\<dots> = map_option ((@) [TCloseList]) (lex_from Idle [])"
    by (rule lex_seg[OF lex_run_brackets(2)])
  finally have tail: "lex_from Idle [CHR 0x0A, CHR '']''] = Some [TCloseList]" by simp
  have "lex_from Idle (out' @ [CHR 0x0A, CHR '']''])
          = map_option ((@) (TOpenList # drop 1 (tokens_items (map PDict msgs))))
              (lex_from Idle [CHR 0x0A, CHR '']''])"
    using inv' by (rule spec)
  also have "\<dots> = Some (TOpenList # drop 1 (tokens_items (map PDict msgs)) @ [TCloseList])"
    unfolding tail by simp
  also have "TOpenList # drop 1 (tokens_items (map PDict msgs)) @ [TCloseList]
               = tokens_of (PList (map PDict msgs))"
    by (cases msgs) simp_all
  finally have lx: "lex_from Idle (out' @ [CHR 0x0A, CHR '']''])
                      = Some (tokens_of (PList (map PDict msgs)))" .
  have jv: "json_value (PList (map PDict msgs))" using assms by simp
  have "json_loads (out' @ [CHR 0x0A, CHR '']''])  = Some (PList (map PDict msgs))"
    by (rule loads_tokens[OF jv lx])
  with res show ?thesis by blast
qed

text \<open>
  Claim C8.  For every list of records whose field values are JSON-representable (no
  datetime, distinct keys in every dictionary), reading back the document written by
  \<open>export_json\<close> yields exactly the list of records, in order and field for field;
  and for every batch size \<open>process_messages_stream\<close> succeeds, counts every record,
  and the array it writes batch by batch reads back as exactly the same list.
\<close>

theorem json_export_roundtrip:
  assumes "json_values (map PDict msgs)"
  shows "json_loads (export_json lib msgs) = Some (PList (map PDict msgs)) \<and>
         (\<exists>text chunks.
            process_messages_stream batch_size msgs = Inr (text, length msgs, chunks) \<and>
            json_loads text = Some (PList (map PDict msgs)))"
  using export_json_loads[OF assms] stream_loads[OF assms] by blast

theorem json_export_roundtrip_witness:
  "json_values (map PDict roundtrip_records) \<and>
   json_loads (export_json sample_lib roundtrip_records) = Some (PList (map PDict roundtrip_records)) \<and>
   (\<exists>text chunks.
      process_messages_stream 1 roundtrip_records = Inr (text, length roundtrip_records, chunks) \<and>
      json_loads text = Some (PList (map PDict roundtrip_records)))"
proof -
  have j: "json_values (map PDict roundtrip_records)"
    by (simp add: roundtrip_records_def)
  from json_export_roundtrip[OF j, of sample_lib 1] j show ?thesis by blast
qed

end
